theory Spec2Isabelle
  imports Main "HOL-Library.Word"
begin

unbundle bit_operations_syntax

section \<open>The programmer firmware: data model\<close>

text \<open>
  The firmware runs on an ATmega16 (avr-gcc): \<open>uchar\<close> and \<open>uint8_t\<close> are 8 bits,
  \<open>int\<close>, \<open>unsigned int\<close> and \<open>uint16_t\<close> are 16 bits, \<open>unsigned long\<close> and
  \<open>uint32_t\<close> are 32 bits.
\<close>

type_synonym u8 = "8 word"
type_synonym u16 = "16 word"
type_synonym u32 = "32 word"

text \<open>
  The pin macros of \<open>isp.h\<close> (\<open>VPP_HIGH\<close>, \<open>XA0_LOW\<close>, \<open>DATA_IN\<close>, ...) are not
  part of the sources at hand. Each use of such a macro is recorded as one event of a trace,
  in program order; nothing is assumed about which port bit a line is. A read of
  \<open>DATA_PIN\<close> takes its value from the environment and is recorded with the value read.
\<close>

datatype line = VPP | VDD | XTAIL | XA0 | XA1 | BS1 | BS2 | PAGEL | WR | OE | SII | SDI | SCI | SDO

datatype event =
    High line
  | Low line
  | DATA_IN
  | DATA_OUT
  | DATA_PORT u8
  | DATA_PIN u8
  | CONTROL_PORT u8
  | CONTROL_DDR u8
  | POWER_DDR_set
  | POWER_DDR_clear
  | Delay_us nat
  | Delay_ms nat
  | Led_red bool
  | Clock_wait u8
  | Isp_rst bool
  | Isp_rst_ddr
  | Isp_release_ddr
  | Isp_release_out
  | Tpi_dly_cnt u16
  | Tpi_init
  | Tpi_send_sstcs_tpisr
  | Tpi_send_byte u8
  | Tpi_read_block u16 u8
  | Tpi_write_block u16 "u8 list"

text \<open>Entries of the flash/EEPROM access layer, logged on entry with their arguments.\<close>

datatype call =
    ReadFlash u32
  | WriteFlash u32 u8 u8
  | FlushPage u32 u8
  | ReadEEPROM u16
  | WriteEEPROM u16 u8

text \<open>
  The globals of \<open>isp.c\<close>, together with the environment: \<open>pin n\<close> is the value the
  \<open>n\<close>-th read of \<open>DATA_PIN\<close> returns, \<open>nreads\<close> counts the reads made so far,
  \<open>trace\<close> is the pin activity so far and \<open>calls\<close> the access-layer entries so far.
  The two logs are only ever appended to; no function reads them.
\<close>

record isp =
  prog_pagesize :: u16
  prog_pagecounter :: u8
  low_byte :: u8
  isp_hiaddr :: u8
  dev_type :: u8
  pin :: "nat \<Rightarrow> u8"
  nreads :: nat
  trace :: "event list"
  calls :: "call list"

definition emit :: "event list \<Rightarrow> isp \<Rightarrow> isp" where
  "emit es s = s\<lparr>trace := trace s @ es\<rparr>"

definition enter :: "call \<Rightarrow> isp \<Rightarrow> isp" where
  "enter c s = s\<lparr>calls := calls s @ [c]\<rparr>"

definition read_DATA_PIN :: "isp \<Rightarrow> u8 \<times> isp" where
  "read_DATA_PIN s =
     (let v = pin s (nreads s)
      in (v, s\<lparr>nreads := Suc (nreads s), trace := trace s @ [DATA_PIN v]\<rparr>))"

section \<open>isp.c: transport\<close>

definition avr_reset :: "isp \<Rightarrow> isp" where
  "avr_reset s = emit [Low VPP, Delay_ms 10, High VPP] s"

definition puls_xt1 :: "isp \<Rightarrow> isp" where
  "puls_xt1 s = emit [High XTAIL, Delay_us 5, Low XTAIL, Delay_us 5] s"

text \<open>
  The body of the loop of \<open>avr_serialExchange\<close> for the bit position \<open>10 - i\<close>, and the
  loop itself: \<open>serial_bits n\<close> runs the positions \<open>n - 1\<close> down to \<open>0\<close>, so that
  \<open>serial_bits 11\<close> is the source's \<open>for (i = 0; i < 11; i++)\<close>.
\<close>

definition serial_bit :: "nat \<Rightarrow> u16 \<Rightarrow> u16 \<Rightarrow> u16 \<Rightarrow> isp \<Rightarrow> u16 \<times> isp" where
  "serial_bit k command dat request s =
     (let s1 = emit [Delay_us 1,
                     (if drop_bit k command AND 1 \<noteq> 0 then High SII else Low SII),
                     (if drop_bit k dat AND 1 \<noteq> 0 then High SDI else Low SDI),
                     High SCI, Delay_us 1, Low SCI] s;
          (v, s2) = read_DATA_PIN s1
      in (if v AND 1 \<noteq> 0 then request OR push_bit k 1 else request, s2))"

fun serial_bits :: "nat \<Rightarrow> u16 \<Rightarrow> u16 \<Rightarrow> u16 \<Rightarrow> isp \<Rightarrow> u16 \<times> isp" where
  "serial_bits 0 command dat request s = (request, s)"
| "serial_bits (Suc k) command dat request s =
     (let (request', s') = serial_bit k command dat request s
      in serial_bits k command dat request' s')"

definition avr_serialExchange :: "u8 \<Rightarrow> u8 \<Rightarrow> isp \<Rightarrow> u8 \<times> isp" where
  "avr_serialExchange instr data s =
     (let command = push_bit 2 (ucast instr :: u16);
          dat = push_bit 2 (ucast data :: u16);
          (request, s') = serial_bits 11 command dat 0 (emit [DATA_IN] s)
      in (ucast (drop_bit 3 request), s'))"

function bsy_wait :: "u16 \<Rightarrow> isp \<Rightarrow> isp" where
  "bsy_wait delay s =
     (let (v, s1) = read_DATA_PIN s in
      if v AND 1 = 0 then
        (let s2 = emit [Delay_us 10] s1 in
         if delay + 1 = 0xFFF then avr_reset s2 else bsy_wait (delay + 1) s2)
      else s1)"
  by pat_completeness auto
termination
proof (relation "measure (\<lambda>(delay, s). unat (0xFFE - delay))")
  show "wf (measure (\<lambda>(delay :: u16, s :: isp). unat (0xFFE - delay)))"
    by simp
next
  fix delay :: u16 and s :: isp and x :: "u8 \<times> isp" and v :: u8 and s1 s2 :: isp
  assume a: "delay + 1 \<noteq> 0xFFF"
  have nz: "0xFFE - delay \<noteq> 0"
  proof
    assume "0xFFE - delay = 0"
    then have "delay = 0xFFE" by simp
    with a show False by simp
  qed
  have "0xFFE - (delay + 1) = (0xFFE - delay) - 1"
    by simp
  moreover have "unat ((0xFFE - delay) - 1) = unat (0xFFE - delay) - 1"
    using nz by (rule unat_minus_one)
  moreover have "0 < unat (0xFFE - delay)"
    using nz by (simp add: unat_gt_0)
  ultimately show "((delay + 1, s2), (delay, s)) \<in> measure (\<lambda>(delay, s). unat (0xFFE - delay))"
    by simp
qed

declare bsy_wait.simps [simp del]

definition avr_bsySerial :: "isp \<Rightarrow> isp" where
  "avr_bsySerial s = bsy_wait 0 (emit [Delay_us 50] s)"

definition avr_loadComm :: "u8 \<Rightarrow> isp \<Rightarrow> isp" where
  "avr_loadComm command s =
     (if dev_type s = 0x00 \<or> dev_type s = 0x01 then
        puls_xt1 (emit ([DATA_OUT, DATA_PORT command, High XA1, Low XA0, Low BS1]
                        @ (if dev_type s = 0 then [Low BS2] else [])
                        @ [Delay_us 1]) s)
      else s)"

definition avr_loadAdd :: "u8 \<Rightarrow> u8 \<Rightarrow> isp \<Rightarrow> isp" where
  "avr_loadAdd add hi_lo s =
     (if dev_type s = 0x00 \<or> dev_type s = 0x01 then
        puls_xt1 (emit ([Low XA1, Low XA0, (if hi_lo \<noteq> 0 then High BS1 else Low BS1)]
                        @ (if dev_type s = 0x00 then [Low BS2] else [])
                        @ [DATA_OUT, DATA_PORT add, Delay_us 5]) s)
      else s)"

definition avr_getId :: "u8 \<Rightarrow> isp \<Rightarrow> u8 \<times> isp" where
  "avr_getId idadd s =
     (if dev_type s = 0x00 \<or> dev_type s = 0x01 then
        (let s1 = avr_loadComm 0x08 s;
             s2 = avr_loadAdd idadd 0 s1;
             s3 = emit [DATA_IN, Low OE, Delay_ms 1] s2;
             (result, s4) = read_DATA_PIN s3
         in (result, emit [High OE] s4))
      else
        (let (r1, s1) = avr_serialExchange 0x4C 0x08 s;
             (r2, s2) = avr_serialExchange 0x0C idadd s1;
             (r3, s3) = avr_serialExchange 0x68 0x00 s2
         in avr_serialExchange 0x6C 0x00 s3))"

text \<open>
  The signature poll of \<open>avr_progMode\<close>:
  \<^verbatim>\<open>while(avr_getId(0) != 0x1E) { if (timeout++ > 1000) break; _delay_ms(1); }\<close>
  The incremented \<open>timeout\<close> is not read after the \<open>break\<close>.
\<close>

function id_poll :: "u16 \<Rightarrow> isp \<Rightarrow> isp" where
  "id_poll timeout s =
     (let (r, s1) = avr_getId 0 s in
      if r \<noteq> 0x1E then
        (if timeout > 1000 then s1
         else id_poll (timeout + 1) (emit [Delay_ms 1] s1))
      else s1)"
  by pat_completeness auto
termination
proof (relation "measure (\<lambda>(timeout, s). 1001 - unat timeout)")
  show "wf (measure (\<lambda>(timeout :: u16, s :: isp). 1001 - unat timeout))"
    by simp
next
  fix timeout :: u16 and s :: isp and x :: "u8 \<times> isp" and r :: u8 and s1 :: isp
  assume "\<not> 1000 < timeout"
  then have le: "unat timeout \<le> 1000"
    by (simp add: word_less_nat_alt)
  then have "unat timeout + unat (1 :: u16) < 2 ^ LENGTH(16)"
    by simp
  then have "unat (timeout + 1) = unat timeout + unat (1 :: u16)"
    by (simp only: unat_add_lem)
  with le show "((timeout + 1, emit [Delay_ms 1] s1), (timeout, s))
      \<in> measure (\<lambda>(timeout, s). 1001 - unat timeout)"
    by simp
qed

declare id_poll.simps [simp del]

text \<open>The three entry sequences of \<open>avr_progMode\<close>, each up to its assignment to \<open>dev_type\<close>.\<close>

definition enter_full_bus :: "isp \<Rightarrow> isp" where
  "enter_full_bus s =
     (emit ([High VPP, Low XTAIL, High XA0, High XA1, Delay_ms 10, Low VPP, Delay_ms 10]
            @ concat (replicate 10 [High XTAIL, Delay_us 5, Low XTAIL, Delay_us 5, Delay_us 10])
            @ [Low PAGEL, Low XA0, Low XA1, Low BS1, Delay_ms 20, High VPP, Delay_ms 50]) s)
     \<lparr>dev_type := 0x00\<rparr>"

definition enter_short_bus :: "isp \<Rightarrow> isp" where
  "enter_short_bus s =
     (emit [Low VDD, Delay_ms 200, Low XA0, Low XA1, Low BS1, Low WR, Low OE, Low VPP,
            Delay_ms 20, High VDD, Delay_ms 10, High VPP, Delay_ms 500, High WR, High OE] s)
     \<lparr>dev_type := 0x01\<rparr>"

definition enter_serial_hv :: "isp \<Rightarrow> isp" where
  "enter_serial_hv s =
     (emit [Low VDD, Low SCI, DATA_OUT, Low SDI, Low SII, Low SDO, Low VPP, Delay_ms 10,
            High VDD, High VPP, Delay_ms 20, DATA_IN, Delay_us 500] s)
     \<lparr>dev_type := 0x02\<rparr>"

definition avr_progMode :: "isp \<Rightarrow> u8 \<times> isp" where
  "avr_progMode s =
     (let (r0, a) = avr_getId 0 (id_poll 0 (enter_full_bus s)) in
      if r0 = 0x1E then (0, a)
      else
        let (r1, b) = avr_getId 0 (id_poll 0 (enter_short_bus a)) in
        if r1 = 0x1E then (0, b)
        else
          let (r2, c) = avr_getId 0 (id_poll 0 (enter_serial_hv b)) in
          if r2 = 0x1E then (0, c) else (1, c))"

section \<open>isp.c: fuses\<close>

definition avr_getFuse :: "u8 \<Rightarrow> isp \<Rightarrow> u8 \<times> isp" where
  "avr_getFuse bt0 s =
     (let bt = (if bt0 > 3 then bt0 mod 3 else bt0) in
      if dev_type s = 0x00 \<or> dev_type s = 0x01 then
        (let s1 = emit [DATA_IN] (avr_loadComm 0x04 s);
             s2 = (if bt = 0 then
                     emit [High BS1, (if dev_type s = 0x00 then High BS2 else High XA1)] s1
                   else s1);
             s3 = (if bt = 1 then
                     emit [Low BS1, (if dev_type s = 0x00 then Low BS2 else Low XA1)] s2
                   else s2);
             s4 = (if bt = 2 then
                     emit ([Low BS1] @ (if dev_type s = 0x00 then [High BS2] else []) @ [High XA1]) s3
                   else s3);
             s5 = (if bt = 3 then
                     emit ([High BS1] @ (if dev_type s = 0x00 then [Low BS2] else []) @ [Low XA1]) s4
                   else s4);
             (result, s6) = read_DATA_PIN (emit [Low OE, Delay_ms 1] s5)
         in (result, emit [High OE] s6))
      else
        (let (r0, s1) = avr_serialExchange 0x4C 0x04 s;
             (result1, s2) = (if bt = 1 then
                     avr_serialExchange 0x6C 0x00 (snd (avr_serialExchange 0x68 0x00 s1))
                   else (0, s1));
             (result2, s3) = (if bt = 0 then
                     avr_serialExchange 0x7E 0x00 (snd (avr_serialExchange 0x7A 0x00 s2))
                   else (result1, s2));
             (result3, s4) = (if bt = 2 then
                     avr_serialExchange 0x6E 0x00 (snd (avr_serialExchange 0x6A 0x00 s3))
                   else (result2, s3))
         in (if bt = 3 then
               avr_serialExchange 0x7C 0x00 (snd (avr_serialExchange 0x78 0x00 s4))
             else (result3, s4))))"

definition serial_fuse_write :: "u8 \<Rightarrow> u8 \<Rightarrow> u8 \<Rightarrow> u8 \<Rightarrow> isp \<Rightarrow> isp" where
  "serial_fuse_write cmd vl i3 i4 s =
     avr_bsySerial (snd (avr_serialExchange i4 0x00 (snd (avr_serialExchange i3 0x00
       (snd (avr_serialExchange 0x2C vl (snd (avr_serialExchange 0x4C cmd s))))))))"

definition avrSetFuse :: "u8 \<Rightarrow> u8 \<Rightarrow> isp \<Rightarrow> isp" where
  "avrSetFuse fs vl s =
     (if dev_type s = 0x00 \<or> dev_type s = 0x01 then
        (let s1 = avr_loadComm (if fs = 0xE0 then 0x20 else 0x40) (emit [Low PAGEL] s);
             s2 = puls_xt1 (emit [Delay_us 10, Low XA1, High XA0, DATA_PORT vl, Delay_us 10] s1);
             s3 = (if fs = 0xA0 then
                     emit [Low BS1, (if dev_type s = 0x00 then Low BS2 else Low XA1)] s2
                   else s2);
             s4 = (if fs = 0xA8 then
                     emit [High BS1, (if dev_type s = 0x00 then Low BS2 else Low XA1)] s3
                   else s3);
             s5 = (if fs = 0xA4 then
                     emit [Low BS1, (if dev_type s = 0x00 then High BS2 else High XA1)] s4
                   else s4)
         in emit [Delay_us 10, Low WR, Delay_ms 1, High WR, Delay_ms 100] s5)
      else
        (let s1 = (if fs = 0xA0 then serial_fuse_write 0x40 vl 0x64 0x6C s else s);
             s2 = (if fs = 0xA8 then serial_fuse_write 0x40 vl 0x74 0x7C s1 else s1);
             s3 = (if fs = 0xA4 then serial_fuse_write 0x40 vl 0x66 0x6E s2 else s2)
         in (if fs = 0xE0 then serial_fuse_write 0x20 vl 0x64 0x6C s3 else s3)))"

definition avr_erase :: "isp \<Rightarrow> isp" where
  "avr_erase s =
     (if dev_type s = 0x00 \<or> dev_type s = 0x01 then
        emit [Low WR, Delay_us 200, High WR, Delay_ms 150] (avr_loadComm 0x80 s)
      else s)"

section \<open>isp.c: connection and flash/EEPROM access\<close>

definition ispSetSCKOption :: "u8 \<Rightarrow> isp \<Rightarrow> isp" where
  "ispSetSCKOption option s =
     avr_bsySerial (snd (avr_serialExchange 0x6C 0x00 (snd (avr_serialExchange 0x64 0x00
       (snd (avr_serialExchange 0x4C 0x80 s))))))"

definition ispConnect :: "isp \<Rightarrow> isp" where
  "ispConnect s =
     (emit [CONTROL_PORT 0xFF, CONTROL_DDR 0xFF, DATA_IN, POWER_DDR_set, High WR, High OE] s)
     \<lparr>isp_hiaddr := 0\<rparr>"

definition ispDisconnect :: "isp \<Rightarrow> isp" where
  "ispDisconnect s = emit [DATA_IN, CONTROL_DDR 0x00, Low VDD, Low VPP, POWER_DDR_clear] s"

definition ispTransmit_sw :: "u8 \<Rightarrow> u8" where
  "ispTransmit_sw send_byte = 0xFF"

definition ispTransmit_hw :: "u8 \<Rightarrow> u8" where
  "ispTransmit_hw send_byte = 0xFF"

definition ispEnterProgrammingMode :: "isp \<Rightarrow> u8 \<times> isp" where
  "ispEnterProgrammingMode s = avr_progMode s"

definition ispUpdateExtended :: "u32 \<Rightarrow> isp \<Rightarrow> isp" where
  "ispUpdateExtended address s =
     (let curr_hi = (ucast (drop_bit 17 address AND 0xFF) :: u8) in
      if isp_hiaddr s XOR curr_hi = 0 then s
      else puls_xt1 (emit [DATA_OUT, Low XA0, Low XA1, Low BS1, High BS2, DATA_PORT curr_hi]
                          (s\<lparr>isp_hiaddr := curr_hi\<rparr>)))"

definition parallelReadFlash :: "u32 \<Rightarrow> isp \<Rightarrow> u8 \<times> isp" where
  "parallelReadFlash address s =
     (let s1 = avr_loadComm 0x02 s;
          s2 = ispUpdateExtended address s1;
          s3 = avr_loadAdd (ucast (drop_bit 9 address)) 1 s2;
          s4 = avr_loadAdd (ucast (drop_bit 1 address AND 0xFF)) 0 s3;
          s5 = emit [DATA_IN, (if address AND 1 \<noteq> 0 then High BS1 else Low BS1),
                     Low OE, Delay_us 1] s4;
          (result, s6) = read_DATA_PIN s5
      in (result, emit [High OE] s6))"

definition serialReadFlash :: "u32 \<Rightarrow> isp \<Rightarrow> u8 \<times> isp" where
  "serialReadFlash address s =
     (let s1 = snd (avr_serialExchange 0x4C 0x02 s);
          s2 = snd (avr_serialExchange 0x0C (ucast (drop_bit 1 address AND 0xFF)) s1);
          s3 = snd (avr_serialExchange 0x1C (ucast (drop_bit 9 address)) s2);
          s4 = snd (avr_serialExchange 0x68 0x00 s3)
      in if address AND 1 \<noteq> 0 then
           avr_serialExchange 0x7C 0x00 (snd (avr_serialExchange 0x78 0x00 s4))
         else
           avr_serialExchange 0x6C 0x00 (snd (avr_serialExchange 0x68 0x00 s4)))"

definition ispReadFlash :: "u32 \<Rightarrow> isp \<Rightarrow> u8 \<times> isp" where
  "ispReadFlash address s0 =
     (let s = enter (ReadFlash address) s0 in
      if dev_type s = 0x00 \<or> dev_type s = 0x01 then parallelReadFlash address s
      else serialReadFlash address s)"

text \<open>
  In \<open>prog_pagecounter >= prog_pagesize\<close> the counter is an \<open>uchar\<close> and the page size an
  \<open>unsigned int\<close>: the comparison is made on 16 unsigned bits.
\<close>

definition parallelWriteFlash :: "u32 \<Rightarrow> u8 \<Rightarrow> u8 \<Rightarrow> isp \<Rightarrow> u8 \<times> isp" where
  "parallelWriteFlash address data pollmode s =
     (let s1 = (if ucast (prog_pagecounter s) \<ge> prog_pagesize s then
                  (avr_loadComm 0x10 s)\<lparr>prog_pagecounter := 0\<rparr>
                else s)
      in if address AND 1 = 0 then
           (0, s1\<lparr>low_byte := data, prog_pagecounter := prog_pagecounter s1 + 1\<rparr>)
         else
           (let s2 = avr_loadAdd (ucast (drop_bit 1 address AND 0xFF)) 0 s1;
                s3 = puls_xt1 (emit [High XA0, Low XA1, DATA_PORT (low_byte s2)] s2);
                s4 = puls_xt1 (emit [High BS1, DATA_PORT data] s3);
                s5 = emit [High PAGEL, Delay_us 1, Low PAGEL, Delay_us 1] s4
            in (0, s5\<lparr>prog_pagecounter := prog_pagecounter s5 + 1\<rparr>)))"

definition serialWriteFlash :: "u32 \<Rightarrow> u8 \<Rightarrow> u8 \<Rightarrow> isp \<Rightarrow> u8 \<times> isp" where
  "serialWriteFlash address data pollmode s =
     (let s1 = (if ucast (prog_pagecounter s) \<ge> prog_pagesize s then
                  (snd (avr_serialExchange 0x4C 0x10 s))\<lparr>prog_pagecounter := 0\<rparr>
                else s)
      in if address AND 1 = 0 then
           (0, s1\<lparr>low_byte := data, prog_pagecounter := prog_pagecounter s1 + 1\<rparr>)
         else
           (let s2 = snd (avr_serialExchange 0x0C (ucast (drop_bit 1 address AND 0xFF)) s1);
                s3 = snd (avr_serialExchange 0x2C (low_byte s2) s2);
                s4 = snd (avr_serialExchange 0x3C data s3);
                s5 = snd (avr_serialExchange 0x7D 0x00 s4);
                s6 = snd (avr_serialExchange 0x7C 0x00 s5)
            in (0, s6\<lparr>prog_pagecounter := prog_pagecounter s6 + 1\<rparr>)))"

definition ispWriteFlash :: "u32 \<Rightarrow> u8 \<Rightarrow> u8 \<Rightarrow> isp \<Rightarrow> u8 \<times> isp" where
  "ispWriteFlash address data pollmode s0 =
     (let s = enter (WriteFlash address data pollmode) s0 in
      if dev_type s = 0x00 \<or> dev_type s = 0x01 then parallelWriteFlash address data pollmode s
      else serialWriteFlash address data pollmode s)"

definition ispFlushPage :: "u32 \<Rightarrow> u8 \<Rightarrow> isp \<Rightarrow> u8 \<times> isp" where
  "ispFlushPage address pollvalue s0 =
     (let s = enter (FlushPage address pollvalue) s0 in
      if dev_type s = 0x00 \<or> dev_type s = 0x01 then
        (let s1 = avr_loadAdd (ucast (drop_bit 9 address)) 1 s;
             s2 = ispUpdateExtended address s1;
             s3 = emit [Low WR, Delay_us 1, High WR, Delay_ms 8, High XA1, Low XA0,
                        DATA_PORT 0x00] s2
         in (0, puls_xt1 s3))
      else
        (let s1 = snd (avr_serialExchange 0x1C (ucast (drop_bit 9 address)) s);
             s2 = snd (avr_serialExchange 0x64 0x00 s1);
             s3 = snd (avr_serialExchange 0x6C 0x00 s2);
             s4 = emit [Delay_ms 8] s3
         in (0, snd (avr_serialExchange 0x4C 0x00 s4))))"

definition ispReadEEPROM :: "u16 \<Rightarrow> isp \<Rightarrow> u8 \<times> isp" where
  "ispReadEEPROM address s0 =
     (let s = enter (ReadEEPROM address) s0 in
      if dev_type s = 0x00 \<or> dev_type s = 0x01 then
        (let s1 = avr_loadComm 0x03 s;
             s2 = avr_loadAdd (ucast (address AND 0xFF)) 1 s1;
             s3 = avr_loadAdd (ucast (address AND 0xFF)) 0 s2;
             (result, s4) = read_DATA_PIN (emit [DATA_IN, Low BS1, Low OE, Delay_us 1] s3)
         in (result, emit [High OE] s4))
      else
        (let s1 = snd (avr_serialExchange 0x4C 0x03 s);
             s2 = snd (avr_serialExchange 0x0C (ucast (address AND 0xFF)) s1);
             s3 = snd (avr_serialExchange 0x1C (ucast (drop_bit 8 address)) s2);
             s4 = snd (avr_serialExchange 0x68 0x00 s3)
         in avr_serialExchange 0x6C 0x00 s4))"

definition ispWriteEEPROM :: "u16 \<Rightarrow> u8 \<Rightarrow> isp \<Rightarrow> u8 \<times> isp" where
  "ispWriteEEPROM address data s0 =
     (let s = enter (WriteEEPROM address data) s0 in
      if dev_type s = 0x00 \<or> dev_type s = 0x01 then (0, s)
      else
        (let s1 = snd (avr_serialExchange 0x4C 0x11 s);
             s2 = snd (avr_serialExchange 0x0C (ucast (address AND 0xFF)) s1);
             s3 = snd (avr_serialExchange 0x1C (ucast (drop_bit 8 address)) s2);
             s4 = snd (avr_serialExchange 0x2C data s3);
             s5 = snd (avr_serialExchange 0x6D 0x00 s4);
             s6 = snd (avr_serialExchange 0x64 0x00 s5);
             s7 = snd (avr_serialExchange 0x6C 0x00 s6)
         in (0, avr_bsySerial s7)))"

section \<open>main.c: the command state machine\<close>

text \<open>
  \<open>usbasp.h\<close> is not among the sources at hand. Its \<open>PROG_STATE_*\<close> and
  \<open>USBASP_FUNC_*\<close> macros are used by \<open>main.c\<close> as the values of two enumerations and are
  modelled as such; \<open>USBASP_FUNC_other\<close> stands for every request byte that is none of
  the macros.
\<close>

datatype prog_state =
    PROG_STATE_IDLE
  | PROG_STATE_WRITEFLASH
  | PROG_STATE_READFLASH
  | PROG_STATE_READEEPROM
  | PROG_STATE_WRITEEEPROM
  | PROG_STATE_TPI_READ
  | PROG_STATE_TPI_WRITE

datatype usbasp_func =
    USBASP_FUNC_CONNECT
  | USBASP_FUNC_DISCONNECT
  | USBASP_FUNC_READFLASH
  | USBASP_FUNC_READEEPROM
  | USBASP_FUNC_ENABLEPROG
  | USBASP_FUNC_WRITEFLASH
  | USBASP_FUNC_WRITEEEPROM
  | USBASP_FUNC_SETLONGADDRESS
  | USBASP_FUNC_SETISPSCK
  | USBASP_FUNC_TPI_CONNECT
  | USBASP_FUNC_TPI_DISCONNECT
  | USBASP_FUNC_TPI_READBLOCK
  | USBASP_FUNC_TPI_WRITEBLOCK
  | USBASP_FUNC_GETCAPABILITIES
  | USBASP_FUNC_other u8

text \<open>
  Modelled from the spec: the block flags of \<open>usbasp.h\<close>, which is not among the sources.
  The spec names two flags, first-of-multi-block and last-of-multi-block, held in bits 3:0 of
  header byte 5; they are given the two lowest bits. Likewise the capability mask and the
  clock options, which the spec only names.
\<close>

definition PROG_BLOCKFLAG_FIRST :: u8 where
  "PROG_BLOCKFLAG_FIRST = 1"

definition PROG_BLOCKFLAG_LAST :: u8 where
  "PROG_BLOCKFLAG_LAST = 2"

definition USBASP_CAP_0_TPI :: u8 where
  "USBASP_CAP_0_TPI = 1"

definition USBASP_ISP_SCK_AUTO :: u8 where
  "USBASP_ISP_SCK_AUTO = 0"

definition USBASP_ISP_SCK_8 :: u8 where
  "USBASP_ISP_SCK_8 = 5"

record ProgrammingState =
  state :: prog_state
  sck_option :: u8
  address_newmode :: u8
  address :: u32
  nbytes :: u16
  pagesize :: u16
  blockflags :: u8
  pagecounter :: u8

text \<open>
  The whole firmware state: the \<open>prog\<close> structure and the reply buffer of \<open>main.c\<close>, the
  globals of \<open>isp.c\<close> with the pins (\<open>chip\<close>), and two more inputs from outside: the level
  of the slow-clock jumper and the bytes that \<open>tpi_read_block\<close> (of \<open>tpi.c\<close>, not among
  the sources) delivers for an address and a length.
\<close>

record firmware =
  prog :: ProgrammingState
  replyBuffer :: "u8 list"
  chip :: isp
  slow_sck_jumper :: bool
  tpi_data :: "u16 \<Rightarrow> u8 \<Rightarrow> u8 list"

definition prog_init :: ProgrammingState where
  "prog_init = \<lparr>state = PROG_STATE_IDLE, sck_option = USBASP_ISP_SCK_AUTO, address_newmode = 0,
                address = 0, nbytes = 0, pagesize = 0, blockflags = 0, pagecounter = 0\<rparr>"

text \<open>
  The state at start-up, for an environment \<open>p\<close> of pin values: the initialisers of
  \<open>isp.c\<close> and \<open>main.c\<close>, globals without one being zero.
\<close>

definition isp_init :: "(nat \<Rightarrow> u8) \<Rightarrow> isp" where
  "isp_init p = \<lparr>prog_pagesize = 0, prog_pagecounter = 0, low_byte = 0, isp_hiaddr = 0,
                 dev_type = 0, pin = p, nreads = 0, trace = [], calls = []\<rparr>"

definition firmware_init :: "(nat \<Rightarrow> u8) \<Rightarrow> firmware" where
  "firmware_init p = \<lparr>prog = prog_init, replyBuffer = replicate 8 0, chip = isp_init p,
                      slow_sck_jumper = True, tpi_data = (\<lambda>a n. replicate (unat n) 0)\<rparr>"

definition on_chip :: "(isp \<Rightarrow> isp) \<Rightarrow> firmware \<Rightarrow> firmware" where
  "on_chip f s = s\<lparr>chip := f (chip s)\<rparr>"

text \<open>
  \<open>(data[3] << 8) | data[2]\<close> is computed on the 16-bit \<open>int\<close>; stored into the
  \<open>unsigned long\<close> address it is sign-extended (avr-gcc keeps the 16 bits of the shift).
\<close>

definition short_address :: "u8 list \<Rightarrow> u32" where
  "short_address data = scast (push_bit 8 (ucast (data ! 3) :: u16) OR ucast (data ! 2))"

definition transfer_length :: "u8 list \<Rightarrow> u16" where
  "transfer_length data = push_bit 8 (ucast (data ! 7) :: u16) OR ucast (data ! 6)"

definition long_address :: "u8 list \<Rightarrow> u32" where
  "long_address data =
     ucast (data ! 2) OR push_bit 8 (ucast (data ! 3)) OR push_bit 16 (ucast (data ! 4))
       OR push_bit 24 (ucast (data ! 5))"

definition set_address :: "u8 list \<Rightarrow> ProgrammingState \<Rightarrow> ProgrammingState" where
  "set_address data p =
     (if address_newmode p = 0 then p\<lparr>address := short_address data\<rparr> else p)"

text \<open>
  \<open>clock.c\<close>. The inner loop of \<open>clockWait\<close> is
  \<^verbatim>\<open>while ((uint8_t)(TCNT0 - starttime) < (F_CPU / 8000000) * 320);\<close>
  Its left side is at most 255 and its right side a multiple of 320, so the loop is left at
  once when \<open>F_CPU\<close> is below 8 MHz and is never left otherwise, whatever the timer
  reads: \<open>clockWait\<close> then does not return, which is the result \<open>None\<close>.
\<close>

text \<open>
  Modelled from the spec: the macro \<open>F_CPU\<close> is set by the build and has no definition in
  \<open>isp.c\<close>, \<open>main.c\<close> or \<open>clock.c\<close>. The header of \<open>main.c\<close> names the target as
  an ATMega16 at 16 MHz and the comment in \<open>clockWait\<close> gives \<open>F_CPU = 16MHz\<close>.
\<close>

definition F_CPU :: nat where
  "F_CPU = 16000000"

definition clockWait :: "u8 \<Rightarrow> isp \<Rightarrow> isp option" where
  "clockWait time s =
     (if (F_CPU div 8000000) * 320 \<le> 255 then Some (emit [Clock_wait time] s) else None)"

text \<open>
  \<open>usbFunctionSetup\<close>: \<open>func\<close> is \<open>data[1]\<close> as decoded by the macros, \<open>data\<close> the
  eight header bytes. The result is the returned length and the new state, or \<open>None\<close>
  when the call does not return (the two TPI requests that call \<open>clockWait\<close>).
\<close>

definition usbFunctionSetup :: "usbasp_func \<Rightarrow> u8 list \<Rightarrow> firmware \<Rightarrow> (u8 \<times> firmware) option" where
  "usbFunctionSetup func data s =
     (case func of
        USBASP_FUNC_CONNECT \<Rightarrow>
          (let s1 = on_chip (ispSetSCKOption
                      (if \<not> slow_sck_jumper s then USBASP_ISP_SCK_8 else sck_option (prog s))) s;
               s2 = s1\<lparr>prog := (prog s1)\<lparr>address_newmode := 0\<rparr>\<rparr>
           in Some (0, on_chip ispConnect (on_chip (emit [Led_red True]) s2)))
      | USBASP_FUNC_DISCONNECT \<Rightarrow>
          Some (0, on_chip (emit [Led_red False]) (on_chip ispDisconnect s))
      | USBASP_FUNC_READFLASH \<Rightarrow>
          Some (0xff, s\<lparr>prog := (set_address data (prog s))
                     \<lparr>nbytes := transfer_length data, state := PROG_STATE_READFLASH\<rparr>\<rparr>)
      | USBASP_FUNC_READEEPROM \<Rightarrow>
          Some (0xff, s\<lparr>prog := (set_address data (prog s))
                     \<lparr>nbytes := transfer_length data, state := PROG_STATE_READEEPROM\<rparr>\<rparr>)
      | USBASP_FUNC_ENABLEPROG \<Rightarrow>
          (let (r, c) = ispEnterProgrammingMode (chip s)
           in Some (1, s\<lparr>chip := c, replyBuffer := (replyBuffer s)[0 := r]\<rparr>))
      | USBASP_FUNC_WRITEFLASH \<Rightarrow>
          (let p1 = set_address data (prog s);
               p2 = p1\<lparr>pagesize := ucast (data ! 4), blockflags := data ! 5 AND 0x0F\<rparr>;
               p3 = p2\<lparr>pagesize := pagesize p2 + push_bit 4 (ucast (data ! 5) AND 0xF0)\<rparr>;
               p4 = (if blockflags p3 AND PROG_BLOCKFLAG_FIRST \<noteq> 0
                     then p3\<lparr>pagecounter := ucast (pagesize p3)\<rparr> else p3)
           in Some (0xff, s\<lparr>prog := p4\<lparr>nbytes := transfer_length data,
                                         state := PROG_STATE_WRITEFLASH\<rparr>\<rparr>))
      | USBASP_FUNC_WRITEEEPROM \<Rightarrow>
          Some (0xff, s\<lparr>prog := (set_address data (prog s))
                     \<lparr>pagesize := 0, blockflags := 0, nbytes := transfer_length data,
                      state := PROG_STATE_WRITEEEPROM\<rparr>\<rparr>)
      | USBASP_FUNC_SETLONGADDRESS \<Rightarrow>
          Some (0, s\<lparr>prog := (prog s)\<lparr>address_newmode := 1, address := long_address data\<rparr>\<rparr>)
      | USBASP_FUNC_SETISPSCK \<Rightarrow>
          Some (1, s\<lparr>prog := (prog s)\<lparr>sck_option := data ! 2\<rparr>,
                     replyBuffer := (replyBuffer s)[0 := 0]\<rparr>)
      | USBASP_FUNC_TPI_CONNECT \<Rightarrow>
          Option.bind
            (clockWait 3
              (emit [Tpi_dly_cnt (ucast (data ! 2) OR push_bit 8 (ucast (data ! 3))),
                     Isp_rst True, Isp_rst_ddr] (chip s)))
            (\<lambda>c1. Option.bind (clockWait 16 (emit [Isp_rst False, Led_red True] c1))
               (\<lambda>c2. Some (0, s\<lparr>chip := emit [Tpi_init] c2\<rparr>)))
      | USBASP_FUNC_TPI_DISCONNECT \<Rightarrow>
          Option.bind
            (clockWait 10 (emit [Tpi_send_sstcs_tpisr, Tpi_send_byte 0] (chip s)))
            (\<lambda>c1. Option.bind (clockWait 5 (emit [Isp_rst True] c1))
               (\<lambda>c2. Option.bind (clockWait 5 (emit [Isp_rst False] c2))
                  (\<lambda>c3. Some (0, s\<lparr>chip := emit [Isp_release_ddr, Isp_release_out,
                                                    Led_red False] c3\<rparr>))))
      | USBASP_FUNC_TPI_READBLOCK \<Rightarrow>
          Some (0xff, s\<lparr>prog := (prog s)\<lparr>address := short_address data,
                     nbytes := transfer_length data, state := PROG_STATE_TPI_READ\<rparr>\<rparr>)
      | USBASP_FUNC_TPI_WRITEBLOCK \<Rightarrow>
          Some (0xff, s\<lparr>prog := (prog s)\<lparr>address := short_address data,
                     nbytes := transfer_length data, state := PROG_STATE_TPI_WRITE\<rparr>\<rparr>)
      | USBASP_FUNC_GETCAPABILITIES \<Rightarrow>
          Some (4, s\<lparr>replyBuffer := (replyBuffer s)[0 := USBASP_CAP_0_TPI, 1 := 0, 2 := 0, 3 := 0]\<rparr>)
      | USBASP_FUNC_other b \<Rightarrow> Some (0, s))"

text \<open>
  The loop of \<open>usbFunctionRead\<close>, run for the \<open>n\<close> bytes still to produce; the bytes
  produced are returned in order.
\<close>

fun read_loop :: "nat \<Rightarrow> firmware \<Rightarrow> u8 list \<times> firmware" where
  "read_loop 0 s = ([], s)"
| "read_loop (Suc n) s =
     (let (b, c) = (if state (prog s) = PROG_STATE_READFLASH
                    then ispReadFlash (address (prog s)) (chip s)
                    else ispReadEEPROM (ucast (address (prog s))) (chip s));
          s1 = s\<lparr>chip := c, prog := (prog s)\<lparr>address := address (prog s) + 1\<rparr>\<rparr>;
          (bs, s2) = read_loop n s1
      in (b # bs, s2))"

text \<open>
  \<open>usbFunctionRead\<close> returns its result byte, the bytes it stored into \<open>data\<close>, and
  the new state.
\<close>

definition usbFunctionRead :: "u8 \<Rightarrow> firmware \<Rightarrow> u8 \<times> u8 list \<times> firmware" where
  "usbFunctionRead len s =
     (if state (prog s) \<noteq> PROG_STATE_READFLASH \<and> state (prog s) \<noteq> PROG_STATE_READEEPROM
         \<and> state (prog s) \<noteq> PROG_STATE_TPI_READ
      then (0xff, [], s)
      else if state (prog s) = PROG_STATE_TPI_READ then
        (let a = (ucast (address (prog s)) :: u16);
             s1 = on_chip (emit [Tpi_read_block a len]) s
         in (len, tpi_data s a len,
             s1\<lparr>prog := (prog s1)\<lparr>address := address (prog s1) + ucast len\<rparr>\<rparr>))
      else
        (let (bs, s1) = read_loop (unat len) s;
             s2 = (if len < 8 then s1\<lparr>prog := (prog s1)\<lparr>state := PROG_STATE_IDLE\<rparr>\<rparr> else s1)
         in (len, bs, s2)))"

text \<open>The body of the loop of \<open>usbFunctionWrite\<close> for the byte \<open>d = data[i]\<close>.\<close>

definition write_byte :: "u8 \<Rightarrow> u8 \<Rightarrow> firmware \<Rightarrow> u8 \<times> firmware" where
  "write_byte d retVal s =
     (let a = address (prog s);
          s1 = (if state (prog s) = PROG_STATE_WRITEFLASH then
                  (if pagesize (prog s) = 0 then
                     on_chip (\<lambda>c. snd (ispWriteFlash a d 1 c)) s
                   else
                     (let t1 = on_chip (\<lambda>c. snd (ispWriteFlash a d 0 c)) s;
                          t2 = t1\<lparr>prog := (prog t1)\<lparr>pagecounter := pagecounter (prog t1) - 1\<rparr>\<rparr>
                      in if pagecounter (prog t2) = 0 then
                           (let t3 = on_chip (\<lambda>c. snd (ispFlushPage a d c)) t2
                            in t3\<lparr>prog := (prog t3)\<lparr>pagecounter := ucast (pagesize (prog t3))\<rparr>\<rparr>)
                         else t2))
                else
                  on_chip (\<lambda>c. snd (ispWriteEEPROM (ucast a) d c)) s);
          s2 = s1\<lparr>prog := (prog s1)\<lparr>nbytes := nbytes (prog s1) - 1\<rparr>\<rparr>;
          (r, s3) = (if nbytes (prog s2) = 0 then
                       (let t1 = s2\<lparr>prog := (prog s2)\<lparr>state := PROG_STATE_IDLE\<rparr>\<rparr>
                        in (1, if blockflags (prog t1) AND PROG_BLOCKFLAG_LAST \<noteq> 0
                                  \<and> ucast (pagecounter (prog t1)) \<noteq> pagesize (prog t1)
                               then on_chip (\<lambda>c. snd (ispFlushPage a d c)) t1
                               else t1))
                     else (retVal, s2))
      in (r, s3\<lparr>prog := (prog s3)\<lparr>address := address (prog s3) + 1\<rparr>\<rparr>))"

fun write_loop :: "u8 list \<Rightarrow> u8 \<Rightarrow> firmware \<Rightarrow> u8 \<times> firmware" where
  "write_loop [] retVal s = (retVal, s)"
| "write_loop (d # ds) retVal s =
     (let (r, s') = write_byte d retVal s in write_loop ds r s')"

text \<open>
  \<open>usbFunctionWrite\<close>: \<open>data\<close> is the chunk \<open>data[0..len-1]\<close>, so \<open>len\<close> is its
  length.
\<close>

definition usbFunctionWrite :: "u8 list \<Rightarrow> firmware \<Rightarrow> u8 \<times> firmware" where
  "usbFunctionWrite data s =
     (if state (prog s) \<noteq> PROG_STATE_WRITEFLASH \<and> state (prog s) \<noteq> PROG_STATE_WRITEEEPROM
         \<and> state (prog s) \<noteq> PROG_STATE_TPI_WRITE
      then (0xff, s)
      else if state (prog s) = PROG_STATE_TPI_WRITE then
        (let s1 = on_chip (emit [Tpi_write_block (ucast (address (prog s))) data]) s;
             s2 = s1\<lparr>prog := (prog s1)\<lparr>address := address (prog s1) + of_nat (length data),
                                        nbytes := nbytes (prog s1) - of_nat (length data)\<rparr>\<rparr>
         in if nbytes (prog s2) = 0
            then (1, s2\<lparr>prog := (prog s2)\<lparr>state := PROG_STATE_IDLE\<rparr>\<rparr>)
            else (0, s2))
      else write_loop data 0 s)"

text \<open>
  The data phase of a write as the host transport drives it: one call of
  \<open>usbFunctionWrite\<close> per chunk, in order. The result is the list of the calls' return
  values and the final state.
\<close>

fun write_chunks :: "u8 list list \<Rightarrow> firmware \<Rightarrow> u8 list \<times> firmware" where
  "write_chunks [] s = ([], s)"
| "write_chunks (ch # chs) s =
     (let (r, s1) = usbFunctionWrite ch s;
          (rs, s2) = write_chunks chs s1
      in (r # rs, s2))"

text \<open>The number of \<open>ispFlushPage\<close> entries in a log of calls.\<close>

fun is_flush :: "call \<Rightarrow> bool" where
  "is_flush (FlushPage a v) = True"
| "is_flush c = False"

definition flushes :: "firmware \<Rightarrow> nat" where
  "flushes s = length (filter is_flush (calls (chip s)))"

section \<open>Vocabulary for pin traces\<close>

text \<open>
  The events of \<open>puls_xt1\<close>, of \<open>avr_loadComm\<close> and \<open>avr_loadAdd\<close> on a device of
  type \<open>dev\<close>, and of the load that \<open>ispUpdateExtended\<close> issues; \<open>high_segment\<close> is
  the byte \<open>ispUpdateExtended\<close> computes from an address (its bits 17 to 24).
\<close>

definition puls_events :: "event list" where
  "puls_events = [High XTAIL, Delay_us 5, Low XTAIL, Delay_us 5]"

definition loadComm_events :: "u8 \<Rightarrow> u8 \<Rightarrow> event list" where
  "loadComm_events command dev =
     (if dev = 0x00 \<or> dev = 0x01 then
        [DATA_OUT, DATA_PORT command, High XA1, Low XA0, Low BS1]
        @ (if dev = 0x00 then [Low BS2] else []) @ [Delay_us 1] @ puls_events
      else [])"

definition loadAdd_events :: "u8 \<Rightarrow> u8 \<Rightarrow> u8 \<Rightarrow> event list" where
  "loadAdd_events add hi_lo dev =
     (if dev = 0x00 \<or> dev = 0x01 then
        [Low XA1, Low XA0, (if hi_lo \<noteq> 0 then High BS1 else Low BS1)]
        @ (if dev = 0x00 then [Low BS2] else []) @ [DATA_OUT, DATA_PORT add, Delay_us 5]
        @ puls_events
      else [])"

definition high_segment :: "u32 \<Rightarrow> u8" where
  "high_segment a = ucast (drop_bit 17 a AND 0xFF)"

definition ext_load_events :: "u8 \<Rightarrow> event list" where
  "ext_load_events h =
     [DATA_OUT, Low XA0, Low XA1, Low BS1, High BS2, DATA_PORT h] @ puls_events"

text \<open>What a run appended to the pin trace: the trace after it without the trace before it.\<close>

definition new_events :: "isp \<Rightarrow> isp \<Rightarrow> event list" where
  "new_events s s' = drop (length (trace s)) (trace s')"

text \<open>The test that opens \<open>parallelWriteFlash\<close> and \<open>serialWriteFlash\<close>.\<close>

definition page_write_due :: "isp \<Rightarrow> bool" where
  "page_write_due s = (ucast (prog_pagecounter s) \<ge> prog_pagesize s)"

text \<open>
  The events an exchange of \<open>avr_serialExchange\<close> can leave in the trace, and a run from
  \<open>s\<close> to \<open>s'\<close> that appended \<open>n\<close> events, all of them of this kind.
\<close>

fun serial_event :: "event \<Rightarrow> bool" where
  "serial_event (Delay_us n) = (n = 1)"
| "serial_event (High l) = (l = SII \<or> l = SDI \<or> l = SCI)"
| "serial_event (Low l) = (l = SII \<or> l = SDI \<or> l = SCI)"
| "serial_event (DATA_PIN v) = True"
| "serial_event DATA_IN = True"
| "serial_event e = False"

definition serial_run :: "nat \<Rightarrow> isp \<Rightarrow> isp \<Rightarrow> bool" where
  "serial_run n s s' =
     (\<exists>es. trace s' = trace s @ es \<and> length es = n \<and> list_all serial_event es)"

text \<open>
  The events of one exchange, exactly: \<open>bit_events k\<close> are those of the loop of
  \<open>avr_serialExchange\<close> for the bit positions \<open>k - 1\<close> down to 0, when the reads of
  \<open>DATA_PIN\<close> return \<open>p n\<close>, \<open>p (n + 1)\<close>, ...; \<open>exchange_events\<close> are
  those of a whole call.
\<close>

fun bit_events :: "nat \<Rightarrow> u16 \<Rightarrow> u16 \<Rightarrow> (nat \<Rightarrow> u8) \<Rightarrow> nat \<Rightarrow> event list" where
  "bit_events 0 command dat p n = []"
| "bit_events (Suc k) command dat p n =
     [Delay_us 1,
      (if drop_bit k command AND 1 \<noteq> 0 then High SII else Low SII),
      (if drop_bit k dat AND 1 \<noteq> 0 then High SDI else Low SDI),
      High SCI, Delay_us 1, Low SCI, DATA_PIN (p n)]
     @ bit_events k command dat p (Suc n)"

definition exchange_events :: "u8 \<Rightarrow> u8 \<Rightarrow> (nat \<Rightarrow> u8) \<Rightarrow> nat \<Rightarrow> event list" where
  "exchange_events instr data p n =
     DATA_IN # bit_events 11 (push_bit 2 (ucast instr)) (push_bit 2 (ucast data)) p n"

text \<open>
  The same firmware state with the last-block flag cleared. What a stream does from it is
  what the page counter alone triggers.
\<close>

definition without_last :: "firmware \<Rightarrow> firmware" where
  "without_last s =
     s\<lparr>prog := (prog s)\<lparr>blockflags := blockflags (prog s) AND NOT PROG_BLOCKFLAG_LAST\<rparr>\<rparr>"


section \<open>Vocabulary for device detection\<close>

text \<open>
  One variant of \<open>avr_progMode\<close> after its entry sequence \<open>entry\<close>: the signature poll
  and then the read that decides, \<open>if (avr_getId(0) == 0x1E) return 0;\<close>. The result is the
  byte of that deciding read and the state after it.
\<close>

definition probe :: "(isp \<Rightarrow> isp) \<Rightarrow> isp \<Rightarrow> u8 \<times> isp" where
  "probe entry s = avr_getId 0 (id_poll 0 (entry s))"

text \<open>
  A run from \<open>s\<close> to \<open>s'\<close> that only appended to the trace, with \<open>n\<close> events
  \<open>VDD_LOW\<close> among those appended. \<open>VDD_LOW\<close> opens the short-bus and the serial entry
  sequence and occurs nowhere else in \<open>avr_progMode\<close>.
\<close>

definition appended :: "isp \<Rightarrow> isp \<Rightarrow> nat \<Rightarrow> bool" where
  "appended s s' n = (\<exists>es. trace s' = trace s @ es \<and> count_list es (Low VDD) = n)"

text \<open>The reads of \<open>DATA_PIN\<close> that one call of \<open>avr_getId\<close> makes.\<close>

definition samples_per_read :: "isp \<Rightarrow> nat" where
  "samples_per_read s = (if dev_type s = 0x00 \<or> dev_type s = 0x01 then 1 else 44)"

text \<open>A state from which every further read of \<open>DATA_PIN\<close> returns 0.\<close>

definition quiet :: "isp \<Rightarrow> bool" where
  "quiet s = (\<forall>n. nreads s \<le> n \<longrightarrow> pin s n = 0)"

text \<open>
  The word \<open>request\<close> that the loop of \<open>avr_serialExchange\<close> builds from the \<open>k\<close> reads
  \<open>p n\<close>, \<open>p (n + 1)\<close>, ...: the read for bit position \<open>k - 1\<close> comes first.
\<close>

fun sampled :: "(nat \<Rightarrow> u8) \<Rightarrow> nat \<Rightarrow> nat \<Rightarrow> u16 \<Rightarrow> u16" where
  "sampled p n 0 request = request"
| "sampled p n (Suc k) request =
     sampled p (Suc n) k (if p n AND 1 \<noteq> 0 then request OR push_bit k 1 else request)"


section \<open>Concrete inputs\<close>

text \<open>An environment in which every read of \<open>DATA_PIN\<close> returns 0.\<close>

definition silent_pins :: "nat \<Rightarrow> u8" where
  "silent_pins n = 0"

text \<open>A target in serial mode (\<open>dev_type = 2\<close>) that never answers.\<close>

definition serial_target :: isp where
  "serial_target = (isp_init silent_pins)\<lparr>dev_type := 0x02\<rparr>"

text \<open>A target in serial mode that holds bit 0 of the data pins high at every read.\<close>

definition high_pins :: "nat \<Rightarrow> u8" where
  "high_pins n = 1"

definition answering_target :: isp where
  "answering_target = (isp_init high_pins)\<lparr>dev_type := 0x02\<rparr>"

text \<open>
  The firmware after start-up, a set-long-address command for 0x1234 and a write-flash
  command with page size 0x40, both block flags and 0x10 bytes to come.
\<close>

definition long_write_session :: firmware where
  "long_write_session =
     snd (the (usbFunctionSetup USBASP_FUNC_WRITEFLASH [0, 6, 0, 0, 0x40, 0x03, 0x10, 0]
       (snd (the (usbFunctionSetup USBASP_FUNC_SETLONGADDRESS [0, 9, 0x34, 0x12, 0, 0, 0, 0]
         (firmware_init silent_pins))))))"

text \<open>A full-bus target (\<open>dev_type = 0\<close>) with a page size of 4 set in \<open>isp.c\<close>.\<close>

definition paged_target :: isp where
  "paged_target = (isp_init silent_pins)\<lparr>prog_pagesize := 4\<rparr>"

text \<open>
  The firmware after start-up and a write-flash command whose header gives the page size
  \<open>psize\<close> (low byte), the block flags \<open>flags\<close> (header byte 5) and the byte count
  \<open>count\<close> (low byte).
\<close>

definition paged_write_session :: "u8 \<Rightarrow> u8 \<Rightarrow> u8 \<Rightarrow> firmware" where
  "paged_write_session psize flags count =
     snd (the (usbFunctionSetup USBASP_FUNC_WRITEFLASH [0, 6, 0, 0, psize, flags, count, 0]
       (firmware_init silent_pins)))"

text \<open>
  The second block of a transfer with page size 4: after start-up, a write-flash command with
  the first-block flag for one byte and that byte, then a write-flash command for address 1
  with the block flags \<open>flags\<close> and three bytes to come.
\<close>

definition second_block_session :: "u8 \<Rightarrow> firmware" where
  "second_block_session flags =
     snd (the (usbFunctionSetup USBASP_FUNC_WRITEFLASH [0, 6, 1, 0, 4, flags, 3, 0]
       (snd (write_chunks [[0x11]] (paged_write_session 4 1 1)))))"

text \<open>
  Four more environments. A target that answers 0x1E on the data pins at every read; one
  that answers 0x1E once, at the first read, and 0 ever after; one that answers 0 for the
  first 1003 reads and 0x1E from then on; and one that is silent for the first 2006 reads and
  then drives bit 0 of the data pins, in every group of 44 reads, high at the reads 36 to 39
  only (the bits 4 to 1 of the byte that the fourth exchange of a serial signature read
  returns).
\<close>

definition steady_pins :: "nat \<Rightarrow> u8" where
  "steady_pins n = 0x1E"

definition glitch_pins :: "nat \<Rightarrow> u8" where
  "glitch_pins n = (if n = 0 then 0x1E else 0)"

definition short_bus_pins :: "nat \<Rightarrow> u8" where
  "short_bus_pins n = (if n < 1003 then 0 else 0x1E)"

definition serial_pins :: "nat \<Rightarrow> u8" where
  "serial_pins n =
     (if 2006 \<le> n \<and> 36 \<le> (n - 2006) mod 44 \<and> (n - 2006) mod 44 \<le> 39 then 1 else 0)"

section \<open>Basic facts\<close>


lemma emit_simps [simp]:
  "prog_pagesize (emit es s) = prog_pagesize s"
  "prog_pagecounter (emit es s) = prog_pagecounter s"
  "low_byte (emit es s) = low_byte s"
  "isp_hiaddr (emit es s) = isp_hiaddr s"
  "dev_type (emit es s) = dev_type s"
  "pin (emit es s) = pin s"
  "nreads (emit es s) = nreads s"
  "calls (emit es s) = calls s"
  "trace (emit es s) = trace s @ es"
  by (simp_all add: emit_def)

lemma enter_simps [simp]:
  "prog_pagesize (enter c s) = prog_pagesize s"
  "prog_pagecounter (enter c s) = prog_pagecounter s"
  "low_byte (enter c s) = low_byte s"
  "isp_hiaddr (enter c s) = isp_hiaddr s"
  "dev_type (enter c s) = dev_type s"
  "pin (enter c s) = pin s"
  "nreads (enter c s) = nreads s"
  "trace (enter c s) = trace s"
  "calls (enter c s) = calls s @ [c]"
  by (simp_all add: enter_def)

lemma read_DATA_PIN_simps [simp]:
  "fst (read_DATA_PIN s) = pin s (nreads s)"
  "prog_pagesize (snd (read_DATA_PIN s)) = prog_pagesize s"
  "prog_pagecounter (snd (read_DATA_PIN s)) = prog_pagecounter s"
  "low_byte (snd (read_DATA_PIN s)) = low_byte s"
  "isp_hiaddr (snd (read_DATA_PIN s)) = isp_hiaddr s"
  "dev_type (snd (read_DATA_PIN s)) = dev_type s"
  "pin (snd (read_DATA_PIN s)) = pin s"
  "nreads (snd (read_DATA_PIN s)) = Suc (nreads s)"
  "calls (snd (read_DATA_PIN s)) = calls s"
  "trace (snd (read_DATA_PIN s)) = trace s @ [DATA_PIN (pin s (nreads s))]"
  by (simp_all add: read_DATA_PIN_def Let_def)

lemma puls_xt1_simps [simp]:
  "prog_pagesize (puls_xt1 s) = prog_pagesize s"
  "prog_pagecounter (puls_xt1 s) = prog_pagecounter s"
  "low_byte (puls_xt1 s) = low_byte s"
  "isp_hiaddr (puls_xt1 s) = isp_hiaddr s"
  "dev_type (puls_xt1 s) = dev_type s"
  "pin (puls_xt1 s) = pin s"
  "nreads (puls_xt1 s) = nreads s"
  "calls (puls_xt1 s) = calls s"
  "trace (puls_xt1 s) = trace s @ [High XTAIL, Delay_us 5, Low XTAIL, Delay_us 5]"
  by (simp_all add: puls_xt1_def)

lemma serial_bit_frame:
  "prog_pagesize (snd (serial_bit k c d r s)) = prog_pagesize s"
  "prog_pagecounter (snd (serial_bit k c d r s)) = prog_pagecounter s"
  "low_byte (snd (serial_bit k c d r s)) = low_byte s"
  "isp_hiaddr (snd (serial_bit k c d r s)) = isp_hiaddr s"
  "dev_type (snd (serial_bit k c d r s)) = dev_type s"
  "pin (snd (serial_bit k c d r s)) = pin s"
  "nreads (snd (serial_bit k c d r s)) = Suc (nreads s)"
  "calls (snd (serial_bit k c d r s)) = calls s"
  by (simp_all add: serial_bit_def Let_def split_beta)

lemma serial_bits_frame:
  "prog_pagesize (snd (serial_bits k c d r s)) = prog_pagesize s \<and>
   prog_pagecounter (snd (serial_bits k c d r s)) = prog_pagecounter s \<and>
   low_byte (snd (serial_bits k c d r s)) = low_byte s \<and>
   isp_hiaddr (snd (serial_bits k c d r s)) = isp_hiaddr s \<and>
   dev_type (snd (serial_bits k c d r s)) = dev_type s \<and>
   pin (snd (serial_bits k c d r s)) = pin s \<and>
   nreads (snd (serial_bits k c d r s)) = nreads s + k \<and>
   calls (snd (serial_bits k c d r s)) = calls s"
  by (induction k arbitrary: r s) (simp_all add: split_beta serial_bit_frame)

lemma avr_serialExchange_simps [simp]:
  "prog_pagesize (snd (avr_serialExchange i d s)) = prog_pagesize s"
  "prog_pagecounter (snd (avr_serialExchange i d s)) = prog_pagecounter s"
  "low_byte (snd (avr_serialExchange i d s)) = low_byte s"
  "isp_hiaddr (snd (avr_serialExchange i d s)) = isp_hiaddr s"
  "dev_type (snd (avr_serialExchange i d s)) = dev_type s"
  "pin (snd (avr_serialExchange i d s)) = pin s"
  "nreads (snd (avr_serialExchange i d s)) = nreads s + 11"
  "calls (snd (avr_serialExchange i d s)) = calls s"
  by (simp_all add: avr_serialExchange_def Let_def split_beta serial_bits_frame)

lemma serial_bits_trace:
  "\<exists>es. trace (snd (serial_bits k c d r s)) = trace s @ es \<and> length es = 7 * k"
proof (induction k arbitrary: r s)
  case 0
  show ?case by simp
next
  case (Suc k)
  obtain r' s' where sb: "serial_bit k c d r s = (r', s')" by (cases "serial_bit k c d r s")
  then have t: "trace s' = trace s @ [Delay_us 1,
                     (if drop_bit k c AND 1 \<noteq> 0 then High SII else Low SII),
                     (if drop_bit k d AND 1 \<noteq> 0 then High SDI else Low SDI),
                     High SCI, Delay_us 1, Low SCI, DATA_PIN (pin s (nreads s))]"
    by (auto simp: serial_bit_def Let_def split_beta)
  from Suc [of r' s'] obtain es where "trace (snd (serial_bits k c d r' s')) = trace s' @ es" 
    and "length es = 7 * k" by blast
  with t sb show ?case by simp
qed

lemma serial_bits_sampled:
  "fst (serial_bits k c d r s) = sampled (pin s) (nreads s) k r"
proof (induction k arbitrary: r s)
  case 0
  show ?case by simp
next
  case (Suc k)
  have a: "fst (serial_bit k c d r s) = (if pin s (nreads s) AND 1 \<noteq> 0 then r OR push_bit k 1 else r)"
    by (simp add: serial_bit_def Let_def split_beta)
  show ?case
    using Suc [of "fst (serial_bit k c d r s)" "snd (serial_bit k c d r s)"]
    by (simp add: split_beta a serial_bit_frame)
qed

lemma avr_serialExchange_result:
  "fst (avr_serialExchange i d s) = ucast (drop_bit 3 (sampled (pin s) (nreads s) 11 0))"
  by (simp add: avr_serialExchange_def Let_def split_beta serial_bits_sampled)

lemma length_bit_events [simp]: "length (bit_events k c d p n) = 7 * k"
  by (induction k arbitrary: n) simp_all

lemma length_exchange_events [simp]: "length (exchange_events i d p n) = 78"
  by (simp add: exchange_events_def)

lemma exchange_events_head:
  "take 8 (exchange_events i d p n @ es) =
     [DATA_IN, Delay_us 1, Low SII, Low SDI, High SCI, Delay_us 1, Low SCI, DATA_PIN (p n)]"
proof -
  have e: "(11 :: nat) = Suc 10" by simp
  have z: "drop_bit 10 (push_bit 2 (ucast x :: u16)) AND 1 = 0" for x :: u8
    by (rule bit_word_eqI) (auto simp add: bit_simps dest: bit_imp_le_length)
  show ?thesis
    unfolding exchange_events_def e bit_events.simps by (simp add: z)
qed

lemma serial_bits_exact:
  "trace (snd (serial_bits k c d r s)) = trace s @ bit_events k c d (pin s) (nreads s)"
proof (induction k arbitrary: r s)
  case 0
  show ?case by simp
next
  case (Suc k)
  show ?case
    using Suc [of "fst (serial_bit k c d r s)" "snd (serial_bit k c d r s)"]
    by (simp add: split_beta serial_bit_frame) (simp add: serial_bit_def Let_def split_beta read_DATA_PIN_def emit_def)
qed

lemma avr_serialExchange_exact:
  "trace (snd (avr_serialExchange i d s)) = trace s @ exchange_events i d (pin s) (nreads s)"
  by (simp add: avr_serialExchange_def Let_def split_beta serial_bits_exact exchange_events_def emit_def)

lemma sampled_bit:
  "j < 16 \<Longrightarrow> bit (sampled p n k r) j = (bit r j \<or> (j < k \<and> p (n + (k - 1 - j)) AND 1 \<noteq> 0))"
proof (induction k arbitrary: n r)
  case 0
  show ?case by simp
next
  case (Suc k)
  show ?case
  proof (cases "j < k")
    case True
    then have "n + (Suc k - 1 - j) = Suc n + (k - 1 - j)" by simp
    with Suc True show ?thesis
      by (auto simp add: bit_simps)
  next
    case False
    with Suc show ?thesis
      by (auto simp add: bit_simps)
  qed
qed

lemma exchange_bits:
  assumes "j < 8"
  shows "bit (fst (avr_serialExchange i d s)) j = (pin s (nreads s + 7 - j) AND 1 \<noteq> 0)"
proof -
  have "bit (fst (avr_serialExchange i d s)) j = bit (sampled (pin s) (nreads s) 11 0) (j + 3)"
    using assms by (simp add: avr_serialExchange_result bit_simps add.commute)
  also have "\<dots> = (pin s (nreads s + (11 - 1 - (j + 3))) AND 1 \<noteq> 0)"
    using assms by (subst sampled_bit) simp_all
  also have "nreads s + (11 - 1 - (j + 3)) = nreads s + 7 - j"
    using assms by simp
  finally show ?thesis .
qed


lemma clockWait_does_not_return: "clockWait time s = None"
  by (simp add: clockWait_def F_CPU_def)

lemma tpi_requests_do_not_return:
  "usbFunctionSetup USBASP_FUNC_TPI_CONNECT data s = None"
  "usbFunctionSetup USBASP_FUNC_TPI_DISCONNECT data s = None"
  by (simp_all add: usbFunctionSetup_def clockWait_does_not_return)

section \<open>Data phase out of state\<close>

text \<open>
  C6. A read data phase entered while the state is none of the reading states, and a write
  data phase entered while the state is none of the writing states, returns 0xFF and leaves
  the whole firmware state as it was: no byte is produced, no access-layer function is
  entered, no pin is touched.
\<close>

theorem out_of_state_data_phase:
  "(state (prog s) \<noteq> PROG_STATE_READFLASH \<and> state (prog s) \<noteq> PROG_STATE_READEEPROM
      \<and> state (prog s) \<noteq> PROG_STATE_TPI_READ
    \<longrightarrow> usbFunctionRead len s = (0xff, [], s))
   \<and> (state (prog s) \<noteq> PROG_STATE_WRITEFLASH \<and> state (prog s) \<noteq> PROG_STATE_WRITEEEPROM
      \<and> state (prog s) \<noteq> PROG_STATE_TPI_WRITE
    \<longrightarrow> usbFunctionWrite data s = (0xff, s))"
  by (simp add: usbFunctionRead_def usbFunctionWrite_def)

theorem out_of_state_data_phase_witness:
  "state (prog (firmware_init silent_pins)) = PROG_STATE_IDLE
   \<and> usbFunctionRead 8 (firmware_init silent_pins) = (0xff, [], firmware_init silent_pins)
   \<and> usbFunctionWrite [0x11, 0x22] (firmware_init silent_pins) = (0xff, firmware_init silent_pins)"
  using out_of_state_data_phase [of "firmware_init silent_pins" 8 "[0x11, 0x22]"]
  by (simp add: firmware_init_def prog_init_def)

lemma avr_serialExchange_trace:
  "\<exists>es. trace (snd (avr_serialExchange i d s)) = trace s @ es \<and> length es = 78"
proof -
  obtain es where "trace (snd (serial_bits 11 (push_bit 2 (ucast i)) (push_bit 2 (ucast d)) 0
      (emit [DATA_IN] s))) = trace (emit [DATA_IN] s) @ es" and "length es = 7 * 11"
    using serial_bits_trace by blast
  then have "trace (snd (avr_serialExchange i d s)) = trace s @ (DATA_IN # es) \<and> length (DATA_IN # es) = 78"
    by (simp add: avr_serialExchange_def Let_def split_beta)
  then show ?thesis by blast
qed

lemma exchange_chain_grows:
  "\<exists>es. trace b = trace a @ es \<Longrightarrow> \<exists>es. trace (snd (avr_serialExchange i d b)) = trace a @ es"
  using avr_serialExchange_trace [of i d b] by auto

lemma bsy_wait_frame:
  "prog_pagesize (bsy_wait dl s) = prog_pagesize s \<and>
   prog_pagecounter (bsy_wait dl s) = prog_pagecounter s \<and>
   low_byte (bsy_wait dl s) = low_byte s \<and>
   isp_hiaddr (bsy_wait dl s) = isp_hiaddr s \<and>
   dev_type (bsy_wait dl s) = dev_type s \<and>
   pin (bsy_wait dl s) = pin s \<and>
   calls (bsy_wait dl s) = calls s"
proof (induction dl s rule: bsy_wait.induct)
  case (1 delay s)
  show ?case
  proof (cases "fst (read_DATA_PIN s) AND 1 = 0 \<and> delay + 1 \<noteq> 0xFFF")
    case True
    then have eq: "bsy_wait delay s = bsy_wait (delay + 1) (emit [Delay_us 10] (snd (read_DATA_PIN s)))"
      by (subst bsy_wait.simps) (simp add: split_beta Let_def)
    from True 1 [OF refl prod.collapse _ refl] show ?thesis
      unfolding eq by simp
  next
    case False
    then show ?thesis
      by (subst (1 2 3 4 5 6 7) bsy_wait.simps) (auto simp add: split_beta Let_def avr_reset_def)
  qed
qed

lemma bsy_wait_timeout:
  "\<forall>n. pin s n AND 1 = 0 \<Longrightarrow>
   \<exists>es. trace (bsy_wait dl s) = trace s @ es @ [Low VPP, Delay_ms 10, High VPP]"
proof (induction dl s rule: bsy_wait.induct)
  case (1 delay s)
  let ?s1 = "snd (read_DATA_PIN s)"
  let ?s2 = "emit [Delay_us 10] ?s1"
  from "1.prems" have busy: "fst (read_DATA_PIN s) AND 1 = 0" by simp
  show ?case
  proof (cases "delay + 1 = 0xFFF")
    case True
    with busy have "bsy_wait delay s = avr_reset ?s2"
      by (subst bsy_wait.simps) (simp add: split_beta Let_def)
    then show ?thesis by (simp add: avr_reset_def)
  next
    case False
    with busy have eq: "bsy_wait delay s = bsy_wait (delay + 1) ?s2"
      by (subst bsy_wait.simps) (simp add: split_beta Let_def)
    from "1.prems" have "\<forall>n. pin ?s2 n AND 1 = 0" by simp
    from "1.IH" [OF refl prod.collapse busy refl False this]
    obtain es where "trace (bsy_wait (delay + 1) ?s2) = trace ?s2 @ es @ [Low VPP, Delay_ms 10, High VPP]"
      by blast
    with eq show ?thesis by simp
  qed
qed

lemma avr_bsySerial_simps [simp]:
  "prog_pagesize (avr_bsySerial s) = prog_pagesize s"
  "prog_pagecounter (avr_bsySerial s) = prog_pagecounter s"
  "low_byte (avr_bsySerial s) = low_byte s"
  "isp_hiaddr (avr_bsySerial s) = isp_hiaddr s"
  "dev_type (avr_bsySerial s) = dev_type s"
  "pin (avr_bsySerial s) = pin s"
  "calls (avr_bsySerial s) = calls s"
  by (simp_all add: avr_bsySerial_def bsy_wait_frame)

lemma avr_bsySerial_timeout:
  assumes "\<forall>n. pin s n AND 1 = 0"
  shows "\<exists>es. trace (avr_bsySerial s) = trace s @ es @ [Low VPP, Delay_ms 10, High VPP]"
proof -
  from assms have "\<forall>n. pin (emit [Delay_us 50] s) n AND 1 = 0" by simp
  from bsy_wait_timeout [OF this, of 0] show ?thesis
    by (auto simp: avr_bsySerial_def)
qed


section \<open>Disconnect\<close>

text \<open>
  C7, as the claim states it, fails: after a set-long-address command and a write-flash
  command, a disconnect command leaves the state at write-flash, and the address, the byte
  count, the page size, the block flags and the long-address mode as they were.
\<close>

theorem disconnect_counterexample:
  "state (prog (snd (the (usbFunctionSetup USBASP_FUNC_DISCONNECT [0, 2, 0, 0, 0, 0, 0, 0]
      long_write_session)))) = PROG_STATE_WRITEFLASH
   \<and> address (prog (snd (the (usbFunctionSetup USBASP_FUNC_DISCONNECT [0, 2, 0, 0, 0, 0, 0, 0]
      long_write_session)))) = 0x1234
   \<and> nbytes (prog (snd (the (usbFunctionSetup USBASP_FUNC_DISCONNECT [0, 2, 0, 0, 0, 0, 0, 0]
      long_write_session)))) = 0x10
   \<and> pagesize (prog (snd (the (usbFunctionSetup USBASP_FUNC_DISCONNECT [0, 2, 0, 0, 0, 0, 0, 0]
      long_write_session)))) = 0x40
   \<and> blockflags (prog (snd (the (usbFunctionSetup USBASP_FUNC_DISCONNECT [0, 2, 0, 0, 0, 0, 0, 0]
      long_write_session)))) = 0x03
   \<and> address_newmode (prog (snd (the (usbFunctionSetup USBASP_FUNC_DISCONNECT [0, 2, 0, 0, 0, 0, 0, 0]
      long_write_session)))) = 1"
  by (simp add: long_write_session_def usbFunctionSetup_def firmware_init_def prog_init_def
      on_chip_def set_address_def long_address_def transfer_length_def PROG_BLOCKFLAG_FIRST_def)

text \<open>
  C7, amended. A disconnect command runs \<open>ispDisconnect\<close> and turns the red LED off: the
  data bus becomes an input, the control port's direction is cleared, supply and programming
  voltage go low, the power lines' direction is cleared. It returns 0 and changes nothing
  else: the \<open>prog\<close> structure (state, address, byte count, page size, block flags,
  long-address mode, page counter) and \<open>dev_type\<close> are unchanged, and no access-layer
  function is entered, so a pending page is not flushed.
\<close>

theorem disconnect_keeps_session:
  "usbFunctionSetup USBASP_FUNC_DISCONNECT data s =
     Some (0, s\<lparr>chip := (chip s)\<lparr>trace := trace (chip s) @
            [DATA_IN, CONTROL_DDR 0x00, Low VDD, Low VPP, POWER_DDR_clear, Led_red False]\<rparr>\<rparr>)
   \<and> prog (snd (the (usbFunctionSetup USBASP_FUNC_DISCONNECT data s))) = prog s
   \<and> dev_type (chip (snd (the (usbFunctionSetup USBASP_FUNC_DISCONNECT data s)))) = dev_type (chip s)
   \<and> calls (chip (snd (the (usbFunctionSetup USBASP_FUNC_DISCONNECT data s)))) = calls (chip s)"
  by (simp add: usbFunctionSetup_def on_chip_def ispDisconnect_def emit_def)

section \<open>Fuse kinds out of range\<close>

text \<open>
  C8, as the claim states it, fails: kind 7 is read as kind 1 (\<open>7 mod 3\<close>), not as kind 3
  (\<open>7 mod 4\<close>); the two reads drive the control lines differently.
\<close>

theorem getFuse_counterexample:
  "trace (snd (avr_getFuse 7 (isp_init silent_pins)))
     \<noteq> trace (snd (avr_getFuse (7 mod 4) (isp_init silent_pins)))
   \<and> avr_getFuse 7 (isp_init silent_pins) = avr_getFuse 1 (isp_init silent_pins)"
  by (simp add: avr_getFuse_def isp_init_def avr_loadComm_def Let_def split_beta)

text \<open>
  C8, amended. For every kind above 3, \<open>avr_getFuse\<close> reduces the kind modulo 3 and
  performs the fuse read of the reduced kind, rather than rejecting the request; the reduced
  kind is 0, 1 or 2, so a kind out of range is never read as the lock bits (kind 3).
\<close>

theorem avr_getFuse_mod_3:
  "3 < bt \<Longrightarrow> avr_getFuse bt s = avr_getFuse (bt mod 3) s \<and> bt mod 3 < 3"
proof -
  assume a: "3 < bt"
  have lt: "bt mod 3 < 3"
    by (simp add: word_mod_less_divisor)
  then have "\<not> 3 < bt mod 3" by simp
  then have "avr_getFuse bt s = avr_getFuse (bt mod 3) s"
    using a by (simp add: avr_getFuse_def)
  with lt show ?thesis by simp
qed

theorem avr_getFuse_mod_3_witness:
  "(3 :: u8) < 7 \<and> avr_getFuse 7 (isp_init silent_pins) = avr_getFuse 1 (isp_init silent_pins)"
  using avr_getFuse_mod_3 [of 7 "isp_init silent_pins"] by simp

section \<open>The write path has no failure value\<close>

text \<open>
  C10. \<open>ispWriteFlash\<close>, \<open>ispFlushPage\<close> and \<open>ispWriteEEPROM\<close> return 0 for every
  device type, address, data byte and state. This includes the runs in which the busy poll of
  \<open>avr_bsySerial\<close> times out: on a serial device whose data pin stays low,
  \<open>ispWriteEEPROM\<close> ends with the target reset of \<open>avr_reset\<close> (programming voltage
  low, 10 ms, high) and still returns 0.
\<close>

theorem write_path_always_returns_0:
  "fst (ispWriteFlash a d pm s) = 0 \<and> fst (ispFlushPage a v s) = 0
   \<and> fst (ispWriteEEPROM e d s) = 0
   \<and> (dev_type s \<noteq> 0x00 \<and> dev_type s \<noteq> 0x01 \<and> (\<forall>n. pin s n AND 1 = 0) \<longrightarrow>
        (\<exists>es. trace (snd (ispWriteEEPROM e d s)) = trace s @ es @ [Low VPP, Delay_ms 10, High VPP]))"
proof -
  have r: "fst (ispWriteFlash a d pm s) = 0 \<and> fst (ispFlushPage a v s) = 0
      \<and> fst (ispWriteEEPROM e d s) = 0"
    by (simp add: ispWriteFlash_def parallelWriteFlash_def serialWriteFlash_def ispFlushPage_def
        ispWriteEEPROM_def Let_def)
  have t: "\<exists>es. trace (snd (ispWriteEEPROM e d s)) = trace s @ es @ [Low VPP, Delay_ms 10, High VPP]"
    if ser: "dev_type s \<noteq> 0x00" "dev_type s \<noteq> 0x01" and busy: "\<forall>n. pin s n AND 1 = 0"
  proof -
    define s7 where "s7 = snd (avr_serialExchange 0x6C 0x00 (snd (avr_serialExchange 0x64 0x00
      (snd (avr_serialExchange 0x6D 0x00 (snd (avr_serialExchange 0x2C d
      (snd (avr_serialExchange 0x1C (ucast (drop_bit 8 e)) (snd (avr_serialExchange 0x0C (ucast (e AND 0xFF))
      (snd (avr_serialExchange 0x4C 0x11 (enter (WriteEEPROM e d) s))))))))))))))"
    have eq: "snd (ispWriteEEPROM e d s) = avr_bsySerial s7"
      using ser by (simp add: ispWriteEEPROM_def Let_def s7_def)
    have "\<exists>es. trace (enter (WriteEEPROM e d) s) = trace s @ es" by simp
    then have g: "\<exists>es. trace s7 = trace s @ es"
      unfolding s7_def by (intro exchange_chain_grows)
    have "\<forall>n. pin s7 n AND 1 = 0"
      using busy by (simp add: s7_def)
    from avr_bsySerial_timeout [OF this] g show ?thesis
      unfolding eq by auto
  qed
  from r t show ?thesis by blast
qed

theorem write_path_always_returns_0_witness:
  "dev_type serial_target \<noteq> 0x00 \<and> dev_type serial_target \<noteq> 0x01
   \<and> (\<forall>n. pin serial_target n AND 1 = 0)
   \<and> fst (ispWriteEEPROM 0 0x55 serial_target) = 0
   \<and> (\<exists>es. trace (snd (ispWriteEEPROM 0 0x55 serial_target))
              = trace serial_target @ es @ [Low VPP, Delay_ms 10, High VPP])"
  using write_path_always_returns_0 [where s = serial_target and e = 0 and d = "0x55"]
  by (simp add: serial_target_def isp_init_def silent_pins_def)

lemma avr_loadComm_simps [simp]:
  "prog_pagesize (avr_loadComm c s) = prog_pagesize s"
  "prog_pagecounter (avr_loadComm c s) = prog_pagecounter s"
  "low_byte (avr_loadComm c s) = low_byte s"
  "isp_hiaddr (avr_loadComm c s) = isp_hiaddr s"
  "dev_type (avr_loadComm c s) = dev_type s"
  "pin (avr_loadComm c s) = pin s"
  "nreads (avr_loadComm c s) = nreads s"
  "calls (avr_loadComm c s) = calls s"
  "trace (avr_loadComm c s) = trace s @ loadComm_events c (dev_type s)"
  by (simp_all add: avr_loadComm_def loadComm_events_def puls_events_def)

lemma avr_loadAdd_simps [simp]:
  "prog_pagesize (avr_loadAdd a h s) = prog_pagesize s"
  "prog_pagecounter (avr_loadAdd a h s) = prog_pagecounter s"
  "low_byte (avr_loadAdd a h s) = low_byte s"
  "isp_hiaddr (avr_loadAdd a h s) = isp_hiaddr s"
  "dev_type (avr_loadAdd a h s) = dev_type s"
  "pin (avr_loadAdd a h s) = pin s"
  "nreads (avr_loadAdd a h s) = nreads s"
  "calls (avr_loadAdd a h s) = calls s"
  "trace (avr_loadAdd a h s) = trace s @ loadAdd_events a h (dev_type s)"
  by (simp_all add: avr_loadAdd_def loadAdd_events_def puls_events_def)

lemma xor_zero_iff: "(x XOR y = 0) = (x = (y :: u8))"
  by (metis bit.xor_left_self word_bw_same(3))

lemma ispUpdateExtended_simps [simp]:
  "prog_pagesize (ispUpdateExtended a s) = prog_pagesize s"
  "prog_pagecounter (ispUpdateExtended a s) = prog_pagecounter s"
  "low_byte (ispUpdateExtended a s) = low_byte s"
  "isp_hiaddr (ispUpdateExtended a s) = high_segment a"
  "dev_type (ispUpdateExtended a s) = dev_type s"
  "pin (ispUpdateExtended a s) = pin s"
  "nreads (ispUpdateExtended a s) = nreads s"
  "calls (ispUpdateExtended a s) = calls s"
  "trace (ispUpdateExtended a s) =
     trace s @ (if isp_hiaddr s XOR high_segment a = 0 then [] else ext_load_events (high_segment a))"
  by (simp_all add: ispUpdateExtended_def high_segment_def ext_load_events_def puls_events_def
      Let_def xor_zero_iff)

lemma High_BS2_not_in_loads [simp]:
  "High BS2 \<notin> set (loadComm_events c dev)"
  "High BS2 \<notin> set (loadAdd_events a h dev)"
  "High BS2 \<notin> set puls_events"
  by (simp_all add: loadComm_events_def loadAdd_events_def puls_events_def)

lemma count_ext_load [simp]: "count_list (ext_load_events h) (High BS2) = 1"
  by (simp add: ext_load_events_def puls_events_def)

lemma parallelReadFlash_trace:
  "trace (snd (parallelReadFlash a s)) =
     trace s @ loadComm_events 0x02 (dev_type s)
       @ (if isp_hiaddr s XOR high_segment a = 0 then [] else ext_load_events (high_segment a))
       @ loadAdd_events (ucast (drop_bit 9 a)) 1 (dev_type s)
       @ loadAdd_events (ucast (drop_bit 1 a AND 0xFF)) 0 (dev_type s)
       @ [DATA_IN, (if a AND 1 \<noteq> 0 then High BS1 else Low BS1), Low OE, Delay_us 1,
          DATA_PIN (pin s (nreads s)), High OE]"
  by (simp add: parallelReadFlash_def Let_def split_beta)

lemma parallelReadFlash_hiaddr [simp]:
  "isp_hiaddr (snd (parallelReadFlash a s)) = high_segment a"
  "dev_type (snd (parallelReadFlash a s)) = dev_type s"
  by (simp_all add: parallelReadFlash_def Let_def split_beta)

lemma serial_bits_events:
  "\<exists>es. trace (snd (serial_bits k c d r s)) = trace s @ es \<and> length es = 7 * k
      \<and> list_all serial_event es"
proof (induction k arbitrary: r s)
  case 0
  show ?case by simp
next
  case (Suc k)
  obtain r' s' where sb: "serial_bit k c d r s = (r', s')" by (cases "serial_bit k c d r s")
  then have t: "trace s' = trace s @ [Delay_us 1,
                     (if drop_bit k c AND 1 \<noteq> 0 then High SII else Low SII),
                     (if drop_bit k d AND 1 \<noteq> 0 then High SDI else Low SDI),
                     High SCI, Delay_us 1, Low SCI, DATA_PIN (pin s (nreads s))]"
    by (auto simp: serial_bit_def Let_def split_beta)
  from Suc [of r' s'] obtain es where "trace (snd (serial_bits k c d r' s')) = trace s' @ es"
    and "length es = 7 * k" and "list_all serial_event es" by blast
  with t sb show ?case by simp
qed

lemma avr_serialExchange_events:
  "\<exists>es. trace (snd (avr_serialExchange i d s)) = trace s @ es \<and> length es = 78
      \<and> list_all serial_event es"
proof -
  obtain es where "trace (snd (serial_bits 11 (push_bit 2 (ucast i)) (push_bit 2 (ucast d)) 0
      (emit [DATA_IN] s))) = trace (emit [DATA_IN] s) @ es" and "length es = 7 * 11"
      and "list_all serial_event es"
    using serial_bits_events by blast
  then have "trace (snd (avr_serialExchange i d s)) = trace s @ (DATA_IN # es)
      \<and> length (DATA_IN # es) = 78 \<and> list_all serial_event (DATA_IN # es)"
    by (simp add: avr_serialExchange_def Let_def split_beta)
  then show ?thesis by blast
qed

lemma serial_run_0: "trace s' = trace s \<Longrightarrow> serial_run 0 s s'"
  by (simp add: serial_run_def)

lemma serial_run_Suc: "serial_run n s s' \<Longrightarrow> serial_run (78 + n) s (snd (avr_serialExchange i d s'))"
  using avr_serialExchange_events [of i d s'] by (auto simp: serial_run_def)

lemma serial_run_count:
  "serial_run n s s' \<Longrightarrow> \<not> serial_event e \<Longrightarrow> count_list (new_events s s') e = 0"
  by (auto simp: serial_run_def new_events_def list_all_iff)

lemma serial_run_length:
  "serial_run n s s' \<Longrightarrow> length (new_events s s') = n"
  by (auto simp: serial_run_def new_events_def)

lemma serial_run_if:
  "serial_run n s (snd x) \<Longrightarrow> serial_run n s (snd y) \<Longrightarrow> serial_run n s (snd (if c then x else y))"
  by simp

lemma serialReadFlash_run: "serial_run 468 s (snd (serialReadFlash a s))"
proof -
  have "serial_run (78 + (78 + (78 + (78 + (78 + (78 + 0)))))) s (snd (serialReadFlash a s))"
    unfolding serialReadFlash_def Let_def
    by (intro serial_run_if serial_run_Suc serial_run_0 refl)
  then show ?thesis by simp
qed

lemma serialReadFlash_frame [simp]:
  "isp_hiaddr (snd (serialReadFlash a s)) = isp_hiaddr s"
  by (simp add: serialReadFlash_def Let_def)

lemma bsy_wait_nreads: "nreads s < nreads (bsy_wait dl s)"
proof (induction dl s rule: bsy_wait.induct)
  case (1 delay s)
  show ?case
  proof (cases "fst (read_DATA_PIN s) AND 1 = 0 \<and> delay + 1 \<noteq> 0xFFF")
    case True
    then have eq: "bsy_wait delay s = bsy_wait (delay + 1) (emit [Delay_us 10] (snd (read_DATA_PIN s)))"
      by (subst bsy_wait.simps) (simp add: split_beta Let_def)
    from True 1 [OF refl prod.collapse _ refl] show ?thesis
      unfolding eq by auto
  next
    case False
    then show ?thesis
      by (subst bsy_wait.simps) (auto simp add: split_beta Let_def avr_reset_def)
  qed
qed


lemma extended_address_parallel:
  assumes par: "dev_type s = 0x00 \<or> dev_type s = 0x01"
  shows "isp_hiaddr (snd (ispReadFlash a s)) = high_segment a
    \<and> new_events s (snd (ispReadFlash a s)) =
        loadComm_events 0x02 (dev_type s)
        @ (if isp_hiaddr s XOR high_segment a = 0 then [] else ext_load_events (high_segment a))
        @ loadAdd_events (ucast (drop_bit 9 a)) 1 (dev_type s)
        @ loadAdd_events (ucast (drop_bit 1 a AND 0xFF)) 0 (dev_type s)
        @ [DATA_IN, (if a AND 1 \<noteq> 0 then High BS1 else Low BS1), Low OE, Delay_us 1,
           DATA_PIN (pin s (nreads s)), High OE]
    \<and> count_list (new_events s (snd (ispReadFlash a s))) (High BS2)
        = (if isp_hiaddr s = high_segment a then 0 else 1)
    \<and> (high_segment b = high_segment a \<longrightarrow>
        count_list (new_events (snd (ispReadFlash a s)) (snd (ispReadFlash b (snd (ispReadFlash a s)))))
          (High BS2) = 0)"
proof -
  have one: "isp_hiaddr (snd (ispReadFlash a t)) = high_segment a
    \<and> dev_type (snd (ispReadFlash a t)) = dev_type t
    \<and> new_events t (snd (ispReadFlash a t)) =
        loadComm_events 0x02 (dev_type t)
        @ (if isp_hiaddr t XOR high_segment a = 0 then [] else ext_load_events (high_segment a))
        @ loadAdd_events (ucast (drop_bit 9 a)) 1 (dev_type t)
        @ loadAdd_events (ucast (drop_bit 1 a AND 0xFF)) 0 (dev_type t)
        @ [DATA_IN, (if a AND 1 \<noteq> 0 then High BS1 else Low BS1), Low OE, Delay_us 1,
           DATA_PIN (pin t (nreads t)), High OE]"
    if "dev_type t = 0x00 \<or> dev_type t = 0x01" for a t
    using that by (auto simp add: ispReadFlash_def Let_def new_events_def parallelReadFlash_trace)
  have cnt: "count_list (new_events t (snd (ispReadFlash a t))) (High BS2)
        = (if isp_hiaddr t = high_segment a then 0 else 1)"
    if "dev_type t = 0x00 \<or> dev_type t = 0x01" for a t
    using one [OF that, of a] by (simp add: xor_zero_iff)
  have par': "dev_type (snd (ispReadFlash a s)) = 0x00 \<or> dev_type (snd (ispReadFlash a s)) = 0x01"
    using one [OF par, of a] par by simp
  from one [OF par, of a] cnt [OF par, of a] cnt [OF par', of b]
  show ?thesis by simp
qed


section \<open>The cached extended address\<close>

text \<open>
  C5, as the claim states it, fails in two ways. On a serial target a read of address
  0x20000, whose segment 1 differs from the cached 0, issues no extended-address load and
  leaves the cache at 0: \<open>ispReadFlash\<close> goes to \<open>serialReadFlash\<close>, which never calls
  \<open>ispUpdateExtended\<close>. And on a full-bus target a read of address 0x2000000, whose bits
  from 17 up are not all zero, issues no load either: only bits 17 to 24 are compared.
\<close>

theorem extended_address_counterexample:
  "isp_hiaddr serial_target = 0 \<and> high_segment 0x20000 = 1
   \<and> isp_hiaddr (snd (ispReadFlash 0x20000 serial_target)) = 0
   \<and> count_list (new_events serial_target (snd (ispReadFlash 0x20000 serial_target))) (High BS2) = 0
   \<and> drop_bit 17 (0x2000000 :: u32) \<noteq> 0
   \<and> isp_hiaddr (isp_init silent_pins) = 0
   \<and> count_list (new_events (isp_init silent_pins)
        (snd (ispReadFlash 0x2000000 (isp_init silent_pins)))) (High BS2) = 0"
proof -
  have ser: "dev_type (enter (ReadFlash 0x20000) serial_target) = 2"
    by (simp add: serial_target_def isp_init_def)
  have "serial_run 468 (enter (ReadFlash 0x20000) serial_target)
      (snd (serialReadFlash 0x20000 (enter (ReadFlash 0x20000) serial_target)))"
    by (rule serialReadFlash_run)
  then have "count_list (new_events (enter (ReadFlash 0x20000) serial_target)
      (snd (serialReadFlash 0x20000 (enter (ReadFlash 0x20000) serial_target)))) (High BS2) = 0"
    by (rule serial_run_count) simp
  then have a: "count_list (new_events serial_target (snd (ispReadFlash 0x20000 serial_target)))
      (High BS2) = 0"
    using ser by (simp add: ispReadFlash_def Let_def new_events_def)
  have b: "isp_hiaddr (snd (ispReadFlash 0x20000 serial_target)) = 0"
    using ser by (simp add: ispReadFlash_def Let_def) (simp add: serial_target_def isp_init_def)
  have c: "count_list (new_events (isp_init silent_pins)
        (snd (ispReadFlash 0x2000000 (isp_init silent_pins)))) (High BS2) = 0"
    by (simp add: ispReadFlash_def Let_def new_events_def parallelReadFlash_trace)
       (simp add: isp_init_def high_segment_def)
  from a b c show ?thesis
    by (simp add: serial_target_def isp_init_def high_segment_def)
qed

text \<open>
  C5, amended. On a parallel target (\<open>dev_type\<close> 0 or 1), with the segment of an address
  being its bits 17 to 24: a read of flash leaves the cache equal to the segment of its
  address; its pin activity is the read command, then the extended-address load if and only if
  the segment differs from the cache (the test is the XOR against the cache), then the two
  address loads and the data access; so a read whose segment differs from the cache issues
  exactly one extended-address load, before its data access, a read whose segment equals
  the cache issues none, and of two consecutive reads with the same segment the second
  issues none. On any other device type a read of flash issues no extended-address load and
  leaves the cache as it was.
\<close>

theorem extended_address_cache:
  "(dev_type s = 0x00 \<or> dev_type s = 0x01 \<longrightarrow>
      isp_hiaddr (snd (ispReadFlash a s)) = high_segment a
      \<and> new_events s (snd (ispReadFlash a s)) =
          loadComm_events 0x02 (dev_type s)
          @ (if isp_hiaddr s XOR high_segment a = 0 then [] else ext_load_events (high_segment a))
          @ loadAdd_events (ucast (drop_bit 9 a)) 1 (dev_type s)
          @ loadAdd_events (ucast (drop_bit 1 a AND 0xFF)) 0 (dev_type s)
          @ [DATA_IN, (if a AND 1 \<noteq> 0 then High BS1 else Low BS1), Low OE, Delay_us 1,
             DATA_PIN (pin s (nreads s)), High OE]
      \<and> count_list (new_events s (snd (ispReadFlash a s))) (High BS2)
          = (if isp_hiaddr s = high_segment a then 0 else 1)
      \<and> (high_segment b = high_segment a \<longrightarrow>
          count_list (new_events (snd (ispReadFlash a s))
            (snd (ispReadFlash b (snd (ispReadFlash a s))))) (High BS2) = 0))
   \<and> (dev_type s \<noteq> 0x00 \<and> dev_type s \<noteq> 0x01 \<longrightarrow>
      isp_hiaddr (snd (ispReadFlash a s)) = isp_hiaddr s
      \<and> count_list (new_events s (snd (ispReadFlash a s))) (High BS2) = 0)"
proof -
  have ser: "isp_hiaddr (snd (ispReadFlash a s)) = isp_hiaddr s
      \<and> count_list (new_events s (snd (ispReadFlash a s))) (High BS2) = 0"
    if d: "dev_type s \<noteq> 0x00" "dev_type s \<noteq> 0x01"
  proof -
    have "serial_run 468 (enter (ReadFlash a) s) (snd (serialReadFlash a (enter (ReadFlash a) s)))"
      by (rule serialReadFlash_run)
    then have "count_list (new_events (enter (ReadFlash a) s)
        (snd (serialReadFlash a (enter (ReadFlash a) s)))) (High BS2) = 0"
      by (rule serial_run_count) simp
    then show ?thesis
      using d by (simp add: ispReadFlash_def Let_def new_events_def)
  qed
  from extended_address_parallel [of s a b] ser show ?thesis
    by blast
qed

theorem extended_address_cache_witness:
  "(dev_type (isp_init silent_pins) = 0x00 \<or> dev_type (isp_init silent_pins) = 0x01)
   \<and> isp_hiaddr (isp_init silent_pins) = 0
   \<and> isp_hiaddr (snd (ispReadFlash 0x20000 (isp_init silent_pins))) = 1
   \<and> count_list (new_events (isp_init silent_pins)
        (snd (ispReadFlash 0x20000 (isp_init silent_pins)))) (High BS2) = 1
   \<and> high_segment 0x20002 = high_segment 0x20000
   \<and> count_list (new_events (snd (ispReadFlash 0x20000 (isp_init silent_pins)))
        (snd (ispReadFlash 0x20002 (snd (ispReadFlash 0x20000 (isp_init silent_pins))))))
        (High BS2) = 0
   \<and> dev_type serial_target \<noteq> 0x00 \<and> dev_type serial_target \<noteq> 0x01
   \<and> isp_hiaddr (snd (ispReadFlash 0x20000 serial_target)) = 0"
  using extended_address_cache [where s = "isp_init silent_pins" and a = "0x20000" and b = "0x20002"]
    extended_address_cache [where s = serial_target and a = "0x20000"]
  by (simp add: isp_init_def serial_target_def high_segment_def)

section \<open>EEPROM access\<close>

lemma ispReadEEPROM_serial:
  assumes ser: "dev_type s \<noteq> 0x00" "dev_type s \<noteq> 0x01"
  shows "nreads (snd (ispReadEEPROM a s)) = nreads s + 55"
    and "new_events s (snd (ispReadEEPROM a s)) =
           exchange_events 0x4C 0x03 (pin s) (nreads s)
           @ exchange_events 0x0C (ucast (a AND 0xFF)) (pin s) (nreads s + 11)
           @ exchange_events 0x1C (ucast (drop_bit 8 a)) (pin s) (nreads s + 22)
           @ exchange_events 0x68 0x00 (pin s) (nreads s + 33)
           @ exchange_events 0x6C 0x00 (pin s) (nreads s + 44)"
    and "j < 8 \<Longrightarrow> bit (fst (ispReadEEPROM a s)) j = (pin s (nreads s + 51 - j) AND 1 \<noteq> 0)"
    and "calls (snd (ispReadEEPROM a s)) = calls s @ [ReadEEPROM a]"
proof -
  show "nreads (snd (ispReadEEPROM a s)) = nreads s + 55"
    using ser by (simp add: ispReadEEPROM_def Let_def)
  show "new_events s (snd (ispReadEEPROM a s)) =
           exchange_events 0x4C 0x03 (pin s) (nreads s)
           @ exchange_events 0x0C (ucast (a AND 0xFF)) (pin s) (nreads s + 11)
           @ exchange_events 0x1C (ucast (drop_bit 8 a)) (pin s) (nreads s + 22)
           @ exchange_events 0x68 0x00 (pin s) (nreads s + 33)
           @ exchange_events 0x6C 0x00 (pin s) (nreads s + 44)"
    using ser by (simp add: ispReadEEPROM_def Let_def new_events_def avr_serialExchange_exact add.commute)
  show "calls (snd (ispReadEEPROM a s)) = calls s @ [ReadEEPROM a]"
    using ser by (simp add: ispReadEEPROM_def Let_def)
  show "bit (fst (ispReadEEPROM a s)) j = (pin s (nreads s + 51 - j) AND 1 \<noteq> 0)" if "j < 8"
  proof -
    have "44 + nreads s + 7 - j = nreads s + 51 - j" by simp
    then show ?thesis
      using ser exchange_bits [OF that] by (simp add: ispReadEEPROM_def Let_def add.commute)
  qed
qed

text \<open>
  C9, as the claim states it, fails: on a serial target \<open>ispReadEEPROM\<close> at address 0 is
  no no-op. It runs five exchanges with the target: 55 samples of the data pin and 390
  events on the pins, beginning with the first bit of the exchange of the read-EEPROM
  command.
\<close>

theorem eeprom_counterexample:
  "dev_type serial_target = 0x02
   \<and> nreads serial_target = 0 \<and> trace serial_target = []
   \<and> nreads (snd (ispReadEEPROM 0 serial_target)) = 55
   \<and> length (trace (snd (ispReadEEPROM 0 serial_target))) = 390
   \<and> take 8 (trace (snd (ispReadEEPROM 0 serial_target)))
       = [DATA_IN, Delay_us 1, Low SII, Low SDI, High SCI, Delay_us 1, Low SCI, DATA_PIN 0]"
proof -
  have ser: "dev_type serial_target \<noteq> 0x00" "dev_type serial_target \<noteq> 0x01"
    by (simp_all add: serial_target_def isp_init_def)
  have tr: "trace serial_target = []" and nr: "nreads serial_target = 0"
    by (simp_all add: serial_target_def isp_init_def)
  from ispReadEEPROM_serial(2) [OF ser, of 0]
  have ev: "trace (snd (ispReadEEPROM 0 serial_target)) =
           exchange_events 0x4C 0x03 (pin serial_target) 0
           @ exchange_events 0x0C 0 (pin serial_target) 11
           @ exchange_events 0x1C 0 (pin serial_target) 22
           @ exchange_events 0x68 0x00 (pin serial_target) 33
           @ exchange_events 0x6C 0x00 (pin serial_target) 44"
    by (simp add: new_events_def tr nr)
  have a: "length (trace (snd (ispReadEEPROM 0 serial_target))) = 390"
    unfolding ev by simp
  have b: "take 8 (trace (snd (ispReadEEPROM 0 serial_target)))
       = [DATA_IN, Delay_us 1, Low SII, Low SDI, High SCI, Delay_us 1, Low SCI, DATA_PIN 0]"
    unfolding ev exchange_events_head by (simp add: serial_target_def isp_init_def silent_pins_def)
  from a b ispReadEEPROM_serial(1) [OF ser, of 0] show ?thesis
    by (simp add: serial_target_def isp_init_def)
qed

text \<open>
  C9, amended. On the serial device type \<open>ispReadEEPROM\<close> at every address accesses the
  target: it runs the five exchanges (0x4C, 0x03), (0x0C, low address byte), (0x1C, high
  address byte), (0x68, 0) and (0x6C, 0), 55 samples of the data pin in all, and returns the
  byte shifted in during the last one: bit \<open>j\<close> of the result is bit 0 of the sample
  \<open>51 - j\<close> after the call's first. \<open>ispWriteEEPROM\<close> returns 0 for every device type,
  address and byte; no unsupported-operation value exists. Whether \<open>ispWriteEEPROM\<close>
  accesses the target is left out of this statement.
\<close>

theorem eeprom_access:
  "fst (ispWriteEEPROM a d s) = 0
   \<and> (dev_type s \<noteq> 0x00 \<and> dev_type s \<noteq> 0x01 \<longrightarrow>
        (\<forall>j<8. bit (fst (ispReadEEPROM a s)) j = (pin s (nreads s + 51 - j) AND 1 \<noteq> 0))
        \<and> nreads (snd (ispReadEEPROM a s)) = nreads s + 55
        \<and> new_events s (snd (ispReadEEPROM a s)) =
            exchange_events 0x4C 0x03 (pin s) (nreads s)
            @ exchange_events 0x0C (ucast (a AND 0xFF)) (pin s) (nreads s + 11)
            @ exchange_events 0x1C (ucast (drop_bit 8 a)) (pin s) (nreads s + 22)
            @ exchange_events 0x68 0x00 (pin s) (nreads s + 33)
            @ exchange_events 0x6C 0x00 (pin s) (nreads s + 44))"
proof -
  have w: "fst (ispWriteEEPROM a d s) = 0"
    by (simp add: ispWriteEEPROM_def Let_def)
  from w ispReadEEPROM_serial(1,2,3) [where s = s and a = a] show ?thesis
    by blast
qed

theorem eeprom_access_witness:
  "dev_type answering_target \<noteq> 0x00 \<and> dev_type answering_target \<noteq> 0x01
   \<and> nreads answering_target = 0
   \<and> fst (ispReadEEPROM 0x0102 answering_target) = 0xFF
   \<and> nreads (snd (ispReadEEPROM 0x0102 answering_target)) = 55
   \<and> take 8 (new_events answering_target (snd (ispReadEEPROM 0x0102 answering_target)))
       = [DATA_IN, Delay_us 1, Low SII, Low SDI, High SCI, Delay_us 1, Low SCI, DATA_PIN 1]
   \<and> fst (ispWriteEEPROM 0x0102 0x55 answering_target) = 0"
proof -
  note th = eeprom_access [where s = answering_target and a = "0x0102" and d = "0x55"]
  have ser: "dev_type answering_target \<noteq> 0x00 \<and> dev_type answering_target \<noteq> 0x01"
    by (simp add: answering_target_def isp_init_def)
  have p: "pin answering_target n = 1" for n
    by (simp add: answering_target_def isp_init_def high_pins_def)
  have nr: "nreads answering_target = 0"
    by (simp add: answering_target_def isp_init_def)
  from th ser have w: "fst (ispWriteEEPROM 0x0102 0x55 answering_target) = 0"
    and b: "\<forall>j<8. bit (fst (ispReadEEPROM 0x0102 answering_target)) j
              = (pin answering_target (nreads answering_target + 51 - j) AND 1 \<noteq> 0)"
    and n: "nreads (snd (ispReadEEPROM 0x0102 answering_target)) = nreads answering_target + 55"
    and e: "new_events answering_target (snd (ispReadEEPROM 0x0102 answering_target)) =
            exchange_events 0x4C 0x03 (pin answering_target) (nreads answering_target)
            @ exchange_events 0x0C (ucast ((0x0102 :: u16) AND 0xFF)) (pin answering_target)
                (nreads answering_target + 11)
            @ exchange_events 0x1C (ucast (drop_bit 8 (0x0102 :: u16))) (pin answering_target)
                (nreads answering_target + 22)
            @ exchange_events 0x68 0x00 (pin answering_target) (nreads answering_target + 33)
            @ exchange_events 0x6C 0x00 (pin answering_target) (nreads answering_target + 44)"
    by blast+
  have "bit (fst (ispReadEEPROM 0x0102 answering_target)) j = bit (- 1 :: u8) j" if "j < 8" for j
    using b that by (simp add: p)
  then have "fst (ispReadEEPROM 0x0102 answering_target) = - 1"
    by (intro bit_word_eqI) simp
  then have r: "fst (ispReadEEPROM 0x0102 answering_target) = 0xFF"
    by simp
  have h: "take 8 (new_events answering_target (snd (ispReadEEPROM 0x0102 answering_target)))
       = [DATA_IN, Delay_us 1, Low SII, Low SDI, High SCI, Delay_us 1, Low SCI, DATA_PIN 1]"
    unfolding e exchange_events_head by (simp add: p)
  from ser nr r n h w show ?thesis
    by simp
qed

section \<open>Word-wise flash writes\<close>

text \<open>
  C2, as the claim states it, fails: both write functions open with a test of the page
  counter against the page size of \<open>isp.c\<close>, and where the counter has reached it they
  first issue the page-write command 0x10 and reset the counter. From the start-up state
  (page size 0, counter 0) an even-address write puts command 0x10 on the bus before it
  buffers the byte, and the odd-address write that follows leaves the counter at 1 instead
  of incrementing it to 2.
\<close>

theorem writeFlash_counterexample:
  "(0 :: u32) AND 1 = 0
   \<and> new_events (isp_init silent_pins) (snd (parallelWriteFlash 0 0x11 0 (isp_init silent_pins)))
       = [DATA_OUT, DATA_PORT 0x10, High XA1, Low XA0, Low BS1, Low BS2, Delay_us 1,
          High XTAIL, Delay_us 5, Low XTAIL, Delay_us 5]
   \<and> prog_pagecounter (snd (parallelWriteFlash 0 0x11 0 (isp_init silent_pins))) = 1
   \<and> prog_pagecounter (snd (parallelWriteFlash 1 0x22 0
        (snd (parallelWriteFlash 0 0x11 0 (isp_init silent_pins))))) = 1"
  by (simp add: parallelWriteFlash_def isp_init_def Let_def new_events_def loadComm_events_def
      puls_events_def)

text \<open>
  C2, amended. For every address \<open>a\<close>, data byte \<open>d\<close> and state, in
  \<open>parallelWriteFlash\<close> and in \<open>serialWriteFlash\<close>, after the opening test (which, when
  the page counter has reached the page size, first issues the page-write command 0x10 and
  resets the counter to 0): if \<open>a\<close> is even, the byte is stored as \<open>low_byte\<close>, the page
  counter is incremented and nothing else happens on the pins; if \<open>a\<close> is odd, the low
  address byte of the word is loaded, the stored \<open>low_byte\<close> is put on the data port and
  clocked in with one pulse of XTAL1, then \<open>d\<close> is put on the data port with BS1 high and
  clocked in with a second pulse, then PAGEL is pulsed, and the page counter is incremented
  (serially: the exchanges 0x0C with the address, 0x2C with \<open>low_byte\<close>, 0x3C with
  \<open>d\<close>, 0x7D and 0x7C). The \<open>low_byte\<close> used is the one in the state, whatever wrote
  it last; an odd write does not change it. Both functions return 0, and the parallel one
  reads no pin.
\<close>

theorem writeFlash_word_buffering:
  "fst (parallelWriteFlash a d pm s) = 0
   \<and> prog_pagecounter (snd (parallelWriteFlash a d pm s))
       = (if page_write_due s then 0 else prog_pagecounter s) + 1
   \<and> nreads (snd (parallelWriteFlash a d pm s)) = nreads s
   \<and> (a AND 1 = 0 \<longrightarrow>
        low_byte (snd (parallelWriteFlash a d pm s)) = d
        \<and> new_events s (snd (parallelWriteFlash a d pm s))
            = (if page_write_due s then loadComm_events 0x10 (dev_type s) else []))
   \<and> (a AND 1 \<noteq> 0 \<longrightarrow>
        low_byte (snd (parallelWriteFlash a d pm s)) = low_byte s
        \<and> new_events s (snd (parallelWriteFlash a d pm s))
            = (if page_write_due s then loadComm_events 0x10 (dev_type s) else [])
              @ loadAdd_events (ucast (drop_bit 1 a AND 0xFF)) 0 (dev_type s)
              @ [High XA0, Low XA1, DATA_PORT (low_byte s)] @ puls_events
              @ [High BS1, DATA_PORT d] @ puls_events
              @ [High PAGEL, Delay_us 1, Low PAGEL, Delay_us 1])
   \<and> fst (serialWriteFlash a d pm s) = 0
   \<and> prog_pagecounter (snd (serialWriteFlash a d pm s))
       = (if page_write_due s then 0 else prog_pagecounter s) + 1
   \<and> (a AND 1 = 0 \<longrightarrow>
        snd (serialWriteFlash a d pm s)
          = (if page_write_due s then (snd (avr_serialExchange 0x4C 0x10 s))\<lparr>prog_pagecounter := 0\<rparr> else s)
            \<lparr>low_byte := d,
             prog_pagecounter := (if page_write_due s then 0 else prog_pagecounter s) + 1\<rparr>)
   \<and> (a AND 1 \<noteq> 0 \<longrightarrow>
        snd (serialWriteFlash a d pm s)
          = (snd (avr_serialExchange 0x7C 0x00 (snd (avr_serialExchange 0x7D 0x00
              (snd (avr_serialExchange 0x3C d (snd (avr_serialExchange 0x2C (low_byte s)
                (snd (avr_serialExchange 0x0C (ucast (drop_bit 1 a AND 0xFF))
                  (if page_write_due s then (snd (avr_serialExchange 0x4C 0x10 s))\<lparr>prog_pagecounter := 0\<rparr> else s)))))))))))
            \<lparr>prog_pagecounter := (if page_write_due s then 0 else prog_pagecounter s) + 1\<rparr>
        \<and> low_byte (snd (serialWriteFlash a d pm s)) = low_byte s)"
proof -
  have p: "fst (parallelWriteFlash a d pm s) = 0
   \<and> prog_pagecounter (snd (parallelWriteFlash a d pm s))
       = (if page_write_due s then 0 else prog_pagecounter s) + 1
   \<and> nreads (snd (parallelWriteFlash a d pm s)) = nreads s"
    by (simp add: parallelWriteFlash_def page_write_due_def Let_def)
  have pe: "low_byte (snd (parallelWriteFlash a d pm s)) = d
        \<and> new_events s (snd (parallelWriteFlash a d pm s))
            = (if page_write_due s then loadComm_events 0x10 (dev_type s) else [])"
    if "a AND 1 = 0"
    using that by (simp add: parallelWriteFlash_def page_write_due_def Let_def new_events_def)
  have po: "low_byte (snd (parallelWriteFlash a d pm s)) = low_byte s
        \<and> new_events s (snd (parallelWriteFlash a d pm s))
            = (if page_write_due s then loadComm_events 0x10 (dev_type s) else [])
              @ loadAdd_events (ucast (drop_bit 1 a AND 0xFF)) 0 (dev_type s)
              @ [High XA0, Low XA1, DATA_PORT (low_byte s)] @ puls_events
              @ [High BS1, DATA_PORT d] @ puls_events
              @ [High PAGEL, Delay_us 1, Low PAGEL, Delay_us 1]"
    if "a AND 1 \<noteq> 0"
    using that
    by (simp add: parallelWriteFlash_def page_write_due_def Let_def new_events_def puls_events_def)
  have q: "fst (serialWriteFlash a d pm s) = 0
   \<and> prog_pagecounter (snd (serialWriteFlash a d pm s))
       = (if page_write_due s then 0 else prog_pagecounter s) + 1"
    by (simp add: serialWriteFlash_def page_write_due_def Let_def)
  have se: "snd (serialWriteFlash a d pm s)
          = (if page_write_due s then (snd (avr_serialExchange 0x4C 0x10 s))\<lparr>prog_pagecounter := 0\<rparr> else s)
            \<lparr>low_byte := d,
             prog_pagecounter := (if page_write_due s then 0 else prog_pagecounter s) + 1\<rparr>"
    if "a AND 1 = 0"
    using that by (simp add: serialWriteFlash_def page_write_due_def Let_def)
  have so: "snd (serialWriteFlash a d pm s)
          = (snd (avr_serialExchange 0x7C 0x00 (snd (avr_serialExchange 0x7D 0x00
              (snd (avr_serialExchange 0x3C d (snd (avr_serialExchange 0x2C (low_byte s)
                (snd (avr_serialExchange 0x0C (ucast (drop_bit 1 a AND 0xFF))
                  (if page_write_due s then (snd (avr_serialExchange 0x4C 0x10 s))\<lparr>prog_pagecounter := 0\<rparr> else s)))))))))))
            \<lparr>prog_pagecounter := (if page_write_due s then 0 else prog_pagecounter s) + 1\<rparr>
        \<and> low_byte (snd (serialWriteFlash a d pm s)) = low_byte s"
    if "a AND 1 \<noteq> 0"
    using that by (simp add: serialWriteFlash_def page_write_due_def Let_def)
  from p pe po q se so show ?thesis by blast
qed

theorem writeFlash_word_buffering_witness:
  "(0 :: u32) AND 1 = 0 \<and> (1 :: u32) AND 1 \<noteq> 0 \<and> \<not> page_write_due paged_target
   \<and> low_byte (snd (parallelWriteFlash 0 0x11 0 paged_target)) = 0x11
   \<and> prog_pagecounter (snd (parallelWriteFlash 0 0x11 0 paged_target)) = 1
   \<and> new_events paged_target (snd (parallelWriteFlash 0 0x11 0 paged_target)) = []
   \<and> new_events (snd (parallelWriteFlash 0 0x11 0 paged_target))
        (snd (parallelWriteFlash 1 0x22 0 (snd (parallelWriteFlash 0 0x11 0 paged_target))))
      = [Low XA1, Low XA0, Low BS1, Low BS2, DATA_OUT, DATA_PORT 0, Delay_us 5,
         High XTAIL, Delay_us 5, Low XTAIL, Delay_us 5,
         High XA0, Low XA1, DATA_PORT 0x11, High XTAIL, Delay_us 5, Low XTAIL, Delay_us 5,
         High BS1, DATA_PORT 0x22, High XTAIL, Delay_us 5, Low XTAIL, Delay_us 5,
         High PAGEL, Delay_us 1, Low PAGEL, Delay_us 1]
   \<and> prog_pagecounter
        (snd (parallelWriteFlash 1 0x22 0 (snd (parallelWriteFlash 0 0x11 0 paged_target)))) = 2
   \<and> new_events paged_target (snd (parallelWriteFlash 1 0x22 0 paged_target))
      = [Low XA1, Low XA0, Low BS1, Low BS2, DATA_OUT, DATA_PORT 0, Delay_us 5,
         High XTAIL, Delay_us 5, Low XTAIL, Delay_us 5,
         High XA0, Low XA1, DATA_PORT 0, High XTAIL, Delay_us 5, Low XTAIL, Delay_us 5,
         High BS1, DATA_PORT 0x22, High XTAIL, Delay_us 5, Low XTAIL, Delay_us 5,
         High PAGEL, Delay_us 1, Low PAGEL, Delay_us 1]
   \<and> low_byte (snd (serialWriteFlash 0 0x11 0 paged_target)) = 0x11
   \<and> low_byte (snd (serialWriteFlash 1 0x22 0 paged_target)) = 0"
proof -
  have s1: "snd (parallelWriteFlash 0 0x11 0 paged_target)
      = paged_target\<lparr>low_byte := 0x11, prog_pagecounter := 1\<rparr>"
    by (simp add: parallelWriteFlash_def paged_target_def isp_init_def Let_def)
  have nd: "\<not> page_write_due paged_target"
    "\<not> page_write_due (paged_target\<lparr>low_byte := 0x11, prog_pagecounter := 1\<rparr>)"
    by (simp_all add: page_write_due_def paged_target_def isp_init_def word_le_nat_alt)
  show ?thesis
    using writeFlash_word_buffering [where s = paged_target and a = 0 and d = "0x11" and pm = 0]
      writeFlash_word_buffering [where s = "paged_target\<lparr>low_byte := 0x11, prog_pagecounter := 1\<rparr>"
        and a = 1 and d = "0x22" and pm = 0]
      writeFlash_word_buffering [where s = paged_target and a = 1 and d = "0x22" and pm = 0]
    unfolding s1 using nd
    by (simp add: loadAdd_events_def puls_events_def)
       (simp add: paged_target_def isp_init_def)
qed

section \<open>The write data phase, byte by byte\<close>

text \<open>
  The laws of a paged flash write. \<open>write_byte_paged\<close> is one pass of the loop of
  \<open>usbFunctionWrite\<close>; \<open>write_loop_paged\<close> is a whole call, \<open>write_chunks_law\<close> a
  sequence of calls. With \<open>P\<close> the page size (1 to 255), \<open>c\<close> the page counter on entry
  (1 to \<open>P\<close>), \<open>N\<close> the byte count on entry and \<open>L \<le> N\<close> bytes consumed, the counter
  triggers \<open>(L + P - c) div P\<close> calls of \<open>ispFlushPage\<close>. What does not depend on the
  page counter (state, byte count, address, return value) holds for every page size:
  \<open>write_byte_flash\<close>, \<open>write_loop_flash\<close>, \<open>write_chunks_flash\<close>.
\<close>

lemma calls_ispWriteFlash [simp]:
  "calls (snd (ispWriteFlash a d pm c)) = calls c @ [WriteFlash a d pm]"
  by (simp add: ispWriteFlash_def parallelWriteFlash_def serialWriteFlash_def Let_def)

lemma calls_ispFlushPage [simp]:
  "calls (snd (ispFlushPage a v c)) = calls c @ [FlushPage a v]"
  by (simp add: ispFlushPage_def Let_def)

lemma calls_ispWriteEEPROM [simp]:
  "calls (snd (ispWriteEEPROM a d c)) = calls c @ [WriteEEPROM a d]"
  by (simp add: ispWriteEEPROM_def Let_def)

lemma on_chip_simps [simp]:
  "prog (on_chip f s) = prog s"
  "chip (on_chip f s) = f (chip s)"
  "replyBuffer (on_chip f s) = replyBuffer s"
  by (simp_all add: on_chip_def)

lemma flushes_simps [simp]:
  "flushes (s\<lparr>prog := p\<rparr>) = flushes s"
  "flushes (on_chip (\<lambda>c. snd (ispWriteFlash a d pm c)) s) = flushes s"
  "flushes (on_chip (\<lambda>c. snd (ispFlushPage a v c)) s) = Suc (flushes s)"
  "flushes (on_chip (\<lambda>c. snd (ispWriteEEPROM e d c)) s) = flushes s"
  by (simp_all add: flushes_def)

lemma u8_dec:
  fixes c :: u8
  assumes "0 < unat c"
  shows "unat (c - 1) = unat c - 1" "(c = 1) = (unat c = 1)"
proof -
  from assms have nz: "c \<noteq> 0" by (simp add: unat_gt_0)
  then show "unat (c - 1) = unat c - 1" by (rule unat_minus_one)
  show "(c = 1) = (unat c = 1)" by (simp add: word_unat_eq_iff)
qed

lemma u16_dec:
  fixes n :: u16
  assumes "0 < unat n"
  shows "unat (n - 1) = unat n - 1" "(n = 1) = (unat n = 1)"
proof -
  from assms have nz: "n \<noteq> 0" by (simp add: unat_gt_0)
  then show "unat (n - 1) = unat n - 1" by (rule unat_minus_one)
  show "(n = 1) = (unat n = 1)" by (simp add: word_unat_eq_iff)
qed

lemma ucast_page:
  fixes P :: u16 and c :: u8
  assumes "unat P < 256"
  shows "unat (ucast P :: u8) = unat P" "((ucast c :: u16) \<noteq> P) = (unat c \<noteq> unat P)"
proof -
  show "unat (ucast P :: u8) = unat P"
    using assms by (simp add: unsigned_ucast_eq take_bit_nat_eq_self)
  have "unat c < 2 ^ 8" using unsigned_less [of c] by simp
  then have "unat c < 2 ^ 16" by simp
  then have "unat (ucast c :: u16) = unat c"
    by (simp add: unsigned_ucast_eq take_bit_nat_eq_self)
  then show "((ucast c :: u16) \<noteq> P) = (unat c \<noteq> unat P)"
    by (simp add: word_unat_eq_iff)
qed

lemma write_byte_paged:
  assumes st: "state (prog s) = PROG_STATE_WRITEFLASH"
    and P: "0 < unat (pagesize (prog s))" "unat (pagesize (prog s)) < 256"
    and c: "0 < unat (pagecounter (prog s))" "unat (pagecounter (prog s)) \<le> unat (pagesize (prog s))"
    and n: "0 < unat (nbytes (prog s))"
  shows "pagesize (prog (snd (write_byte d r s))) = pagesize (prog s)"
    and "blockflags (prog (snd (write_byte d r s))) = blockflags (prog s)"
    and "nbytes (prog (snd (write_byte d r s))) = nbytes (prog s) - 1"
    and "address (prog (snd (write_byte d r s))) = address (prog s) + 1"
    and "unat (pagecounter (prog (snd (write_byte d r s))))
          = (if unat (pagecounter (prog s)) = 1 then unat (pagesize (prog s))
             else unat (pagecounter (prog s)) - 1)"
    and "state (prog (snd (write_byte d r s)))
          = (if unat (nbytes (prog s)) = 1 then PROG_STATE_IDLE else PROG_STATE_WRITEFLASH)"
    and "flushes (snd (write_byte d r s))
          = flushes s + (if unat (pagecounter (prog s)) = 1 then 1 else 0)
            + (if unat (nbytes (prog s)) = 1 \<and> blockflags (prog s) AND PROG_BLOCKFLAG_LAST \<noteq> 0
                  \<and> unat (pagecounter (prog s)) \<noteq> 1 then 1 else 0)"
    and "fst (write_byte d r s) = (if unat (nbytes (prog s)) = 1 then 1 else r)"
proof -
  from P have pz: "pagesize (prog s) \<noteq> 0" by (simp add: unat_gt_0)
  note dc = u8_dec [OF c(1)] u16_dec [OF n] ucast_page [OF P(2)]
  have le: "unat (pagecounter (prog s)) - Suc 0 \<noteq> unat (pagesize (prog s))"
    using c by simp
  show "pagesize (prog (snd (write_byte d r s))) = pagesize (prog s)"
    using st pz by (simp add: write_byte_def Let_def split_beta)
  show "blockflags (prog (snd (write_byte d r s))) = blockflags (prog s)"
    using st pz by (simp add: write_byte_def Let_def split_beta)
  show "nbytes (prog (snd (write_byte d r s))) = nbytes (prog s) - 1"
    using st pz by (simp add: write_byte_def Let_def split_beta)
  show "address (prog (snd (write_byte d r s))) = address (prog s) + 1"
    using st pz by (simp add: write_byte_def Let_def split_beta)
  show "unat (pagecounter (prog (snd (write_byte d r s))))
          = (if unat (pagecounter (prog s)) = 1 then unat (pagesize (prog s))
             else unat (pagecounter (prog s)) - 1)"
    using st pz by (simp add: write_byte_def Let_def split_beta dc)
  show "state (prog (snd (write_byte d r s)))
          = (if unat (nbytes (prog s)) = 1 then PROG_STATE_IDLE else PROG_STATE_WRITEFLASH)"
    using st pz by (simp add: write_byte_def Let_def split_beta dc)
  show "fst (write_byte d r s) = (if unat (nbytes (prog s)) = 1 then 1 else r)"
    using st pz by (simp add: write_byte_def Let_def split_beta dc)
  show "flushes (snd (write_byte d r s))
          = flushes s + (if unat (pagecounter (prog s)) = 1 then 1 else 0)
            + (if unat (nbytes (prog s)) = 1 \<and> blockflags (prog s) AND PROG_BLOCKFLAG_LAST \<noteq> 0
                  \<and> unat (pagecounter (prog s)) \<noteq> 1 then 1 else 0)"
    using st pz le by (simp add: write_byte_def Let_def split_beta dc)
qed

lemma phase_step:
  assumes "0 < P" "0 < c" "c \<le> (P :: nat)"
  shows "(Suc L + P - c) div P = (if c = 1 then 1 else 0) + (L + P - (if c = 1 then P else c - 1)) div P"
    and "(Suc L + P - c) mod P = (L + P - (if c = 1 then P else c - 1)) mod P"
proof -
  have eq: "Suc L + P - c = (if c = 1 then L + P else L + P - (c - 1))"
    using assms(2,3) by (simp split: if_splits)
  have d: "(L + P) div P = Suc (L div P)"
    using assms(1) by (simp add: div_add_self2)
  have m: "(L + P) mod P = L mod P"
    by simp
  show "(Suc L + P - c) div P = (if c = 1 then 1 else 0) + (L + P - (if c = 1 then P else c - 1)) div P"
    unfolding eq by (simp only: d m if_distrib [of "\<lambda>x. x div P"] add_diff_cancel_right' split: if_split) simp
  show "(Suc L + P - c) mod P = (L + P - (if c = 1 then P else c - 1)) mod P"
    unfolding eq by (simp only: d m if_distrib [of "\<lambda>x. x mod P"] add_diff_cancel_right' split: if_split) simp
qed

lemma phase_base:
  assumes "0 < P" "0 < c" "c \<le> (P :: nat)"
  shows "(0 + P - c) div P = 0" and "P - (0 + P - c) mod P = c"
proof -
  have lt: "P - c < P" using assms by simp
  show "(0 + P - c) div P = 0" using lt by simp
  have "(P - c) mod P = P - c" using lt by simp
  then show "P - (0 + P - c) mod P = c" using assms(3) by simp
qed


lemma write_byte_snd_indep: "snd (write_byte d r s) = snd (write_byte d r' s)"
  unfolding write_byte_def Let_def split_beta
  by (simp only: snd_conv fst_conv if_distrib [of snd])

lemma write_loop_snd_indep:
  "snd (write_loop ds r s) = snd (write_loop ds r' s)"
proof (induction ds arbitrary: r r' s)
  case Nil
  show ?case by simp
next
  case (Cons d ds)
  have "write_loop (d # ds) r s = write_loop ds (fst (write_byte d r s)) (snd (write_byte d r s))"
    "write_loop (d # ds) r' s = write_loop ds (fst (write_byte d r' s)) (snd (write_byte d r s))"
    using write_byte_snd_indep [of d r s r'] by (simp_all only: write_loop.simps Let_def split_beta)
  then show ?case
    using Cons [of "fst (write_byte d r s)" "snd (write_byte d r s)" "fst (write_byte d r' s)"]
    by (simp only:)
qed

lemma write_loop_paged:
  assumes "state (prog s) = PROG_STATE_WRITEFLASH"
    and "0 < unat (pagesize (prog s))" "unat (pagesize (prog s)) < 256"
    and "0 < unat (pagecounter (prog s))"
        "unat (pagecounter (prog s)) \<le> unat (pagesize (prog s))"
    and "0 < unat (nbytes (prog s))" "length ds \<le> unat (nbytes (prog s))"
  shows "state (prog (snd (write_loop ds r s)))
           = (if length ds = unat (nbytes (prog s)) then PROG_STATE_IDLE else PROG_STATE_WRITEFLASH)
       \<and> pagesize (prog (snd (write_loop ds r s))) = pagesize (prog s)
       \<and> blockflags (prog (snd (write_loop ds r s))) = blockflags (prog s)
       \<and> unat (nbytes (prog (snd (write_loop ds r s)))) = unat (nbytes (prog s)) - length ds
       \<and> address (prog (snd (write_loop ds r s))) = address (prog s) + of_nat (length ds)
       \<and> unat (pagecounter (prog (snd (write_loop ds r s))))
           = unat (pagesize (prog s))
             - (length ds + unat (pagesize (prog s)) - unat (pagecounter (prog s)))
               mod unat (pagesize (prog s))
       \<and> flushes (snd (write_loop ds r s))
           = flushes s
             + (length ds + unat (pagesize (prog s)) - unat (pagecounter (prog s)))
               div unat (pagesize (prog s))
             + (if length ds = unat (nbytes (prog s))
                   \<and> blockflags (prog s) AND PROG_BLOCKFLAG_LAST \<noteq> 0
                   \<and> (length ds + unat (pagesize (prog s)) - unat (pagecounter (prog s)))
                       mod unat (pagesize (prog s)) \<noteq> 0
                then 1 else 0)
       \<and> fst (write_loop ds r s) = (if length ds = unat (nbytes (prog s)) then 1 else r)"
  using assms
proof (induction ds arbitrary: s r)
  case Nil
  then show ?case by simp
next
  case (Cons d ds)
  define P where "P = unat (pagesize (prog s))"
  define c where "c = unat (pagecounter (prog s))"
  define N where "N = unat (nbytes (prog s))"
  define s1 where "s1 = snd (write_byte d r s)"
  define r1 where "r1 = fst (write_byte d r s)"
  define c1 where "c1 = (if c = 1 then P else c - 1)"
  define L where "L = length ds"
  define F where "F = (blockflags (prog s) AND PROG_BLOCKFLAG_LAST \<noteq> 0)"
  note step = write_byte_paged [OF Cons.prems(1-6), of d r]
  have Ppos: "0 < P" "P < 256" and cr: "0 < c" "c \<le> P" and Npos: "0 < N" and LN: "Suc L \<le> N"
    using Cons.prems by (simp_all add: P_def c_def N_def L_def)
  have loop: "write_loop (d # ds) r s = write_loop ds r1 s1"
    by (simp add: split_beta r1_def s1_def)
  have ps1: "pagesize (prog s1) = pagesize (prog s)" and bf1: "blockflags (prog s1) = blockflags (prog s)"
    and ad1: "address (prog s1) = address (prog s) + 1"
    using step(1,2,4) by (simp_all add: s1_def)
  have P1: "unat (pagesize (prog s1)) = P" using ps1 by (simp add: P_def)
  have C1: "unat (pagecounter (prog s1)) = c1"
    using step(5) by (simp add: s1_def c1_def c_def P_def)
  have N1: "unat (nbytes (prog s1)) = N - 1"
    using step(3) u16_dec(1) [OF Cons.prems(6)] by (simp add: s1_def N_def)
  have st1: "state (prog s1) = (if N = 1 then PROG_STATE_IDLE else PROG_STATE_WRITEFLASH)"
    using step(6) by (simp add: s1_def N_def)
  have fl1: "flushes s1 = flushes s + (if c = 1 then 1 else 0) + (if N = 1 \<and> F \<and> c \<noteq> 1 then 1 else 0)"
    using step(7) by (simp add: s1_def N_def c_def F_def)
  have rr1: "r1 = (if N = 1 then 1 else r)"
    using step(8) by (simp add: r1_def N_def)
  have c1r: "0 < c1" "c1 \<le> P"
    using Ppos cr by (auto simp: c1_def)
  have phd: "(Suc L + P - c) div P = (if c = 1 then 1 else 0) + (L + P - c1) div P"
    and phm: "(Suc L + P - c) mod P = (L + P - c1) mod P"
    using phase_step [OF Ppos(1) cr, of L] by (simp_all add: c1_def)
  have goal: "state (prog (snd (write_loop ds r1 s1)))
           = (if Suc L = N then PROG_STATE_IDLE else PROG_STATE_WRITEFLASH)
       \<and> pagesize (prog (snd (write_loop ds r1 s1))) = pagesize (prog s)
       \<and> blockflags (prog (snd (write_loop ds r1 s1))) = blockflags (prog s)
       \<and> unat (nbytes (prog (snd (write_loop ds r1 s1)))) = N - Suc L
       \<and> address (prog (snd (write_loop ds r1 s1))) = address (prog s) + of_nat (Suc L)
       \<and> unat (pagecounter (prog (snd (write_loop ds r1 s1)))) = P - (Suc L + P - c) mod P
       \<and> flushes (snd (write_loop ds r1 s1))
           = flushes s + (Suc L + P - c) div P
             + (if Suc L = N \<and> F \<and> (Suc L + P - c) mod P \<noteq> 0 then 1 else 0)
       \<and> fst (write_loop ds r1 s1) = (if Suc L = N then 1 else r)"
  proof (cases "N = 1")
    case True
    with LN have L0: "L = 0" by simp
    then have nil: "ds = []" by (simp add: L_def)
    have d0: "(P - c1) div P = 0" and pc: "P - (P - c1) mod P = c1"
      using phase_base [OF Ppos(1) c1r] by simp_all
    have "(P - c1) mod P = P - c1"
      using c1r by simp
    moreover have "(c1 = P) = (c = 1)"
      using cr by (auto simp add: c1_def)
    ultimately have m0: "((P - c1) mod P \<noteq> 0) = (c \<noteq> 1)"
      using c1r by auto
    have a: "state (prog s1) = PROG_STATE_IDLE" using st1 True by simp
    have b: "unat (nbytes (prog s1)) = 0" using N1 True by simp
    have f: "flushes s1 = flushes s + (if c = 1 then 1 else 0) + (if F \<and> c \<noteq> 1 then 1 else 0)"
      using fl1 True by simp
    have g: "r1 = 1" using rr1 True by simp
    have D: "(Suc L + P - c) div P = (if c = 1 then 1 else 0)"
      using phd d0 L0 by simp
    have M: "((Suc L + P - c) mod P \<noteq> 0) = (c \<noteq> 1)"
      using phm m0 L0 by simp
    have PC: "P - (Suc L + P - c) mod P = c1"
      using phm pc L0 by simp
    have NL: "(Suc L = N) = True" "N - Suc L = 0" "of_nat (Suc L) = (1 :: u32)"
      using True L0 by simp_all
    show ?thesis
      unfolding nil write_loop.simps fst_conv snd_conv D M PC NL
      using a b f g ps1 bf1 ad1 C1 by simp
  next
    case False
    with Npos have N1pos: "0 < unat (nbytes (prog s1))"
      using N1 by simp
    have st1': "state (prog s1) = PROG_STATE_WRITEFLASH"
      using st1 False by simp
    have len1: "length ds \<le> unat (nbytes (prog s1))"
      using LN N1 by (simp add: L_def)
    have P1': "0 < unat (pagesize (prog s1))" "unat (pagesize (prog s1)) < 256"
      using P1 Ppos by simp_all
    have c1': "0 < unat (pagecounter (prog s1))"
      "unat (pagecounter (prog s1)) \<le> unat (pagesize (prog s1))"
      using C1 c1r P1 by simp_all
    have IH: "state (prog (snd (write_loop ds r1 s1)))
           = (if L = N - 1 then PROG_STATE_IDLE else PROG_STATE_WRITEFLASH)
       \<and> pagesize (prog (snd (write_loop ds r1 s1))) = pagesize (prog s)
       \<and> blockflags (prog (snd (write_loop ds r1 s1))) = blockflags (prog s)
       \<and> unat (nbytes (prog (snd (write_loop ds r1 s1)))) = N - 1 - L
       \<and> address (prog (snd (write_loop ds r1 s1))) = address (prog s) + 1 + of_nat L
       \<and> unat (pagecounter (prog (snd (write_loop ds r1 s1)))) = P - (L + P - c1) mod P
       \<and> flushes (snd (write_loop ds r1 s1))
           = flushes s1 + (L + P - c1) div P
             + (if L = N - 1 \<and> F \<and> (L + P - c1) mod P \<noteq> 0 then 1 else 0)
       \<and> fst (write_loop ds r1 s1) = (if L = N - 1 then 1 else r1)"
      using Cons.IH [OF st1' P1' c1' N1pos len1, of r1]
      unfolding P1 C1 N1 bf1 ad1 L_def [symmetric] F_def [symmetric]
      by (simp only: ps1)
    have fin: "(L = N - 1) = (Suc L = N)"
      using Npos by auto
    have f: "flushes s1 = flushes s + (if c = 1 then 1 else 0)"
      using fl1 False by simp
    have g: "r1 = r" using rr1 False by simp
    have n: "N - 1 - L = N - Suc L" by simp
    have ad: "address (prog s) + 1 + of_nat L = address (prog s) + of_nat (Suc L)" by simp
    show ?thesis
      using IH unfolding fin f g n ad phd phm by (simp only: add.assoc)
  qed
  have len: "length (d # ds) = Suc L" by (simp add: L_def)
  show ?case
    unfolding loop len P_def [symmetric] c_def [symmetric] N_def [symmetric] F_def [symmetric]
    by (rule goal)
qed

lemma write_loop_append:
  "write_loop (xs @ ys) r s = write_loop ys (fst (write_loop xs r s)) (snd (write_loop xs r s))"
  by (induction xs arbitrary: r s) (simp_all add: split_beta)

lemma write_chunks_idle:
  "state (prog s) = PROG_STATE_IDLE \<Longrightarrow> snd (write_chunks chs s) = s"
  by (induction chs) (simp_all add: usbFunctionWrite_def split_beta)

lemma usbFunctionWrite_flash:
  "state (prog s) = PROG_STATE_WRITEFLASH \<Longrightarrow> usbFunctionWrite data s = write_loop data 0 s"
  by (simp add: usbFunctionWrite_def)

lemma write_byte_flash:
  assumes st: "state (prog s) = PROG_STATE_WRITEFLASH"
  shows "pagesize (prog (snd (write_byte d r s))) = pagesize (prog s)"
    and "blockflags (prog (snd (write_byte d r s))) = blockflags (prog s)"
    and "nbytes (prog (snd (write_byte d r s))) = nbytes (prog s) - 1"
    and "address (prog (snd (write_byte d r s))) = address (prog s) + 1"
    and "state (prog (snd (write_byte d r s)))
          = (if nbytes (prog s) = 1 then PROG_STATE_IDLE else PROG_STATE_WRITEFLASH)"
    and "fst (write_byte d r s) = (if nbytes (prog s) = 1 then 1 else r)"
  using st by (simp_all add: write_byte_def Let_def split_beta)

lemma write_loop_flash:
  assumes "state (prog s) = PROG_STATE_WRITEFLASH"
    and "0 < unat (nbytes (prog s))" "length ds \<le> unat (nbytes (prog s))"
  shows "state (prog (snd (write_loop ds r s)))
           = (if length ds = unat (nbytes (prog s)) then PROG_STATE_IDLE else PROG_STATE_WRITEFLASH)
       \<and> pagesize (prog (snd (write_loop ds r s))) = pagesize (prog s)
       \<and> blockflags (prog (snd (write_loop ds r s))) = blockflags (prog s)
       \<and> unat (nbytes (prog (snd (write_loop ds r s)))) = unat (nbytes (prog s)) - length ds
       \<and> address (prog (snd (write_loop ds r s))) = address (prog s) + of_nat (length ds)
       \<and> fst (write_loop ds r s) = (if length ds = unat (nbytes (prog s)) then 1 else r)"
  using assms
proof (induction ds arbitrary: s r)
  case Nil
  then show ?case by simp
next
  case (Cons d ds)
  define N where "N = unat (nbytes (prog s))"
  define s1 where "s1 = snd (write_byte d r s)"
  define r1 where "r1 = fst (write_byte d r s)"
  define L where "L = length ds"
  note step = write_byte_flash [OF Cons.prems(1), of d r]
  note dec = u16_dec [OF Cons.prems(2)]
  have Npos: "0 < N" and LN: "Suc L \<le> N"
    using Cons.prems by (simp_all add: N_def L_def)
  have loop: "write_loop (d # ds) r s = write_loop ds r1 s1"
    by (simp add: split_beta r1_def s1_def)
  have ps1: "pagesize (prog s1) = pagesize (prog s)" and bf1: "blockflags (prog s1) = blockflags (prog s)"
    and ad1: "address (prog s1) = address (prog s) + 1"
    using step(1,2,4) by (simp_all add: s1_def)
  have N1: "unat (nbytes (prog s1)) = N - 1"
    using step(3) dec(1) by (simp add: s1_def N_def)
  have st1: "state (prog s1) = (if N = 1 then PROG_STATE_IDLE else PROG_STATE_WRITEFLASH)"
    using step(5) dec(2) by (simp add: s1_def N_def)
  have rr1: "r1 = (if N = 1 then 1 else r)"
    using step(6) dec(2) by (simp add: r1_def N_def)
  have goal: "state (prog (snd (write_loop ds r1 s1)))
           = (if Suc L = N then PROG_STATE_IDLE else PROG_STATE_WRITEFLASH)
       \<and> pagesize (prog (snd (write_loop ds r1 s1))) = pagesize (prog s)
       \<and> blockflags (prog (snd (write_loop ds r1 s1))) = blockflags (prog s)
       \<and> unat (nbytes (prog (snd (write_loop ds r1 s1)))) = N - Suc L
       \<and> address (prog (snd (write_loop ds r1 s1))) = address (prog s) + of_nat (Suc L)
       \<and> fst (write_loop ds r1 s1) = (if Suc L = N then 1 else r)"
  proof (cases "N = 1")
    case True
    with LN have L0: "L = 0" by simp
    then have nil: "ds = []" by (simp add: L_def)
    show ?thesis
      unfolding nil write_loop.simps fst_conv snd_conv
      using True L0 st1 ps1 bf1 N1 ad1 rr1 by simp
  next
    case False
    with Npos have N1pos: "0 < unat (nbytes (prog s1))"
      using N1 by simp
    have st1': "state (prog s1) = PROG_STATE_WRITEFLASH"
      using st1 False by simp
    have len1: "length ds \<le> unat (nbytes (prog s1))"
      using LN N1 by (simp add: L_def)
    have IH: "state (prog (snd (write_loop ds r1 s1)))
           = (if L = N - 1 then PROG_STATE_IDLE else PROG_STATE_WRITEFLASH)
       \<and> pagesize (prog (snd (write_loop ds r1 s1))) = pagesize (prog s)
       \<and> blockflags (prog (snd (write_loop ds r1 s1))) = blockflags (prog s)
       \<and> unat (nbytes (prog (snd (write_loop ds r1 s1)))) = N - 1 - L
       \<and> address (prog (snd (write_loop ds r1 s1))) = address (prog s) + 1 + of_nat L
       \<and> fst (write_loop ds r1 s1) = (if L = N - 1 then 1 else r1)"
      using Cons.IH [OF st1' N1pos len1, of r1]
      unfolding N1 bf1 ad1 L_def [symmetric]
      by (simp only: ps1)
    have fin: "(L = N - 1) = (Suc L = N)"
      using Npos by auto
    have g: "r1 = r" using rr1 False by simp
    have n: "N - 1 - L = N - Suc L" by simp
    have ad: "address (prog s) + 1 + of_nat L = address (prog s) + of_nat (Suc L)" by simp
    show ?thesis
      using IH unfolding fin g n ad .
  qed
  have len: "length (d # ds) = Suc L" by (simp add: L_def)
  show ?case
    unfolding loop len N_def [symmetric]
    by (rule goal)
qed

lemma write_chunks_flash:
  assumes "state (prog s) = PROG_STATE_WRITEFLASH"
    and "0 < unat (nbytes (prog s))" "length (concat chs) \<le> unat (nbytes (prog s))"
  shows "snd (write_chunks chs s) = snd (write_loop (concat chs) 0 s)"
  using assms
proof (induction chs arbitrary: s)
  case Nil
  show ?case by simp
next
  case (Cons ch chs)
  define s1 where "s1 = snd (write_loop ch 0 s)"
  define r1 where "r1 = fst (write_loop ch 0 s)"
  have len: "length ch \<le> unat (nbytes (prog s))"
    using Cons.prems(3) by simp
  note law = write_loop_flash [OF Cons.prems(1,2) len, of 0, folded s1_def r1_def]
  have lhs: "snd (write_chunks (ch # chs) s) = snd (write_chunks chs s1)"
    using Cons.prems(1) by (simp add: usbFunctionWrite_flash split_beta s1_def)
  have rhs: "snd (write_loop (concat (ch # chs)) 0 s) = snd (write_loop (concat chs) 0 s1)"
    using write_loop_snd_indep [of "concat chs" r1 s1 0]
    by (simp add: write_loop_append s1_def r1_def)
  show ?case
  proof (cases "length ch = unat (nbytes (prog s))")
    case True
    with Cons.prems(3) have nil: "concat chs = []" by simp
    from law True have "state (prog s1) = PROG_STATE_IDLE" by simp
    then show ?thesis
      unfolding lhs rhs nil by (simp add: write_chunks_idle)
  next
    case False
    from law False have st: "state (prog s1) = PROG_STATE_WRITEFLASH"
      and nb: "unat (nbytes (prog s1)) = unat (nbytes (prog s)) - length ch"
      by simp_all
    have c: "0 < unat (nbytes (prog s1))" "length (concat chs) \<le> unat (nbytes (prog s1))"
      using nb False len Cons.prems(3) by simp_all
    from Cons.IH [OF st c] show ?thesis
      unfolding lhs rhs .
  qed
qed

lemma write_chunks_law:
  assumes "state (prog s) = PROG_STATE_WRITEFLASH"
    and "0 < unat (pagesize (prog s))" "unat (pagesize (prog s)) < 256"
    and "0 < unat (pagecounter (prog s))"
        "unat (pagecounter (prog s)) \<le> unat (pagesize (prog s))"
    and "0 < unat (nbytes (prog s))" "length (concat chs) \<le> unat (nbytes (prog s))"
  shows "state (prog (snd (write_chunks chs s)))
           = (if length (concat chs) = unat (nbytes (prog s))
              then PROG_STATE_IDLE else PROG_STATE_WRITEFLASH)"
    and "pagesize (prog (snd (write_chunks chs s))) = pagesize (prog s)"
    and "unat (nbytes (prog (snd (write_chunks chs s))))
           = unat (nbytes (prog s)) - length (concat chs)"
    and "unat (pagecounter (prog (snd (write_chunks chs s))))
           = unat (pagesize (prog s))
             - (length (concat chs) + unat (pagesize (prog s)) - unat (pagecounter (prog s)))
               mod unat (pagesize (prog s))"
    and "flushes (snd (write_chunks chs s))
           = flushes s
             + (length (concat chs) + unat (pagesize (prog s)) - unat (pagecounter (prog s)))
               div unat (pagesize (prog s))
             + (if length (concat chs) = unat (nbytes (prog s))
                   \<and> blockflags (prog s) AND PROG_BLOCKFLAG_LAST \<noteq> 0
                   \<and> (length (concat chs) + unat (pagesize (prog s))
                        - unat (pagecounter (prog s))) mod unat (pagesize (prog s)) \<noteq> 0
                then 1 else 0)"
  using write_loop_paged [OF assms, of 0]
  unfolding write_chunks_flash [OF assms(1,6,7)] by blast+

lemma armed_counter:
  assumes "0 < unat (P :: u16)" "unat P < 256" "c = (ucast P :: u8)"
  shows "0 < unat c" "unat c \<le> unat P" "unat c = unat P"
  using assms ucast_page(1) [OF assms(2)] by simp_all

lemma session_chip: "chip (paged_write_session p f n) = isp_init silent_pins"
  by (simp add: paged_write_session_def usbFunctionSetup_def firmware_init_def Let_def)

lemma session_flushes: "flushes (paged_write_session p f n) = 0"
  by (simp add: flushes_def session_chip isp_init_def)

section \<open>The page-write command of a stream\<close>

text \<open>
  The page size that the write functions of \<open>isp.c\<close> test is \<open>prog_pagesize\<close>, and
  \<open>main.c\<close> never assigns it: a write-flash command stores its page size into
  \<open>prog.pagesize\<close>. While \<open>prog_pagesize\<close> is 0 the test
  \<open>prog_pagecounter >= prog_pagesize\<close> holds at every call, so every byte of a paged
  stream loads the page-write command 0x10. The lemmas count the loads of 0x10 on the data
  port of a full-bus target, for addresses below 32 and bytes other than 0x10 (so that no
  address or data byte is counted).
\<close>

lemma low_address_bits:
  fixes a :: u32
  assumes "unat a < 32"
  shows "ucast (drop_bit 1 a AND 0xFF) \<noteq> (0x10 :: u8)"
    and "ucast (drop_bit 9 a) = (0 :: u8)"
    and "ucast (drop_bit 17 a AND 0xFF) = (0 :: u8)"
proof -
  have "unat a < unat (2 ^ 5 :: u32)" using assms by simp
  then have "a < 2 ^ 5" by (simp only: word_less_nat_alt)
  then have tb: "a AND mask 5 = a" by (rule less_mask_eq)
  have small: "n < 5" if "bit a n" for n
  proof -
    from that have "bit (a AND mask 5) n" by (simp only: tb)
    then show ?thesis by (simp add: bit_and_iff bit_mask_iff)
  qed
  show "ucast (drop_bit 1 a AND 0xFF) \<noteq> (0x10 :: u8)"
  proof
    assume "ucast (drop_bit 1 a AND 0xFF) = (0x10 :: u8)"
    then have "bit (ucast (drop_bit 1 a AND 0xFF) :: u8) 4 = bit (0x10 :: u8) 4" by simp
    then have "bit a 5" by (simp add: bit_simps)
    then show False using small [of 5] by simp
  qed
  show "ucast (drop_bit 9 a) = (0 :: u8)"
    by (rule bit_word_eqI) (auto simp add: bit_simps dest: small)
  show "ucast (drop_bit 17 a AND 0xFF) = (0 :: u8)"
    by (rule bit_word_eqI) (auto simp add: bit_simps dest: small)
qed


lemma write_byte_unset_pagesize:
  assumes st: "state (prog s) = PROG_STATE_WRITEFLASH"
    and pz: "pagesize (prog s) \<noteq> 0"
    and nl: "blockflags (prog s) AND PROG_BLOCKFLAG_LAST = 0"
    and dev: "dev_type (chip s) = 0"
    and ips: "prog_pagesize (chip s) = 0"
    and hi: "isp_hiaddr (chip s) = 0"
    and ad: "unat (address (prog s)) < 32"
    and lb: "low_byte (chip s) \<noteq> 0x10"
    and d: "d \<noteq> 0x10"
  shows "count_list (trace (chip (snd (write_byte d r s)))) (DATA_PORT 0x10)
           = count_list (trace (chip s)) (DATA_PORT 0x10) + 1"
    and "dev_type (chip (snd (write_byte d r s))) = 0"
    and "prog_pagesize (chip (snd (write_byte d r s))) = 0"
    and "prog_pagecounter (chip (snd (write_byte d r s))) = 1"
    and "isp_hiaddr (chip (snd (write_byte d r s))) = 0"
    and "low_byte (chip (snd (write_byte d r s))) \<noteq> 0x10"
proof -
  note la = low_address_bits [OF ad]
  show "count_list (trace (chip (snd (write_byte d r s)))) (DATA_PORT 0x10)
           = count_list (trace (chip s)) (DATA_PORT 0x10) + 1"
    using st pz nl dev ips hi lb d la
    by (simp add: write_byte_def Let_def split_beta ispWriteFlash_def
        parallelWriteFlash_def ispFlushPage_def ispUpdateExtended_def avr_loadComm_def
        avr_loadAdd_def puls_xt1_def enter_def)
  show "dev_type (chip (snd (write_byte d r s))) = 0"
    using st pz nl dev ips hi la
    by (simp add: write_byte_def Let_def split_beta ispWriteFlash_def
        parallelWriteFlash_def ispFlushPage_def ispUpdateExtended_def)
  show "prog_pagesize (chip (snd (write_byte d r s))) = 0"
    using st pz nl dev ips hi la
    by (simp add: write_byte_def Let_def split_beta ispWriteFlash_def
        parallelWriteFlash_def ispFlushPage_def ispUpdateExtended_def)
  show "prog_pagecounter (chip (snd (write_byte d r s))) = 1"
    using st pz nl dev ips hi la
    by (simp add: write_byte_def Let_def split_beta ispWriteFlash_def
        parallelWriteFlash_def ispFlushPage_def ispUpdateExtended_def)
  show "isp_hiaddr (chip (snd (write_byte d r s))) = 0"
    using st pz nl dev ips hi la
    by (simp add: write_byte_def Let_def split_beta ispWriteFlash_def
        parallelWriteFlash_def ispFlushPage_def ispUpdateExtended_def)
  show "low_byte (chip (snd (write_byte d r s))) \<noteq> 0x10"
    using st pz nl dev ips hi la lb d
    by (simp add: write_byte_def Let_def split_beta ispWriteFlash_def
        parallelWriteFlash_def ispFlushPage_def ispUpdateExtended_def)
qed


lemma write_loop_unset_pagesize:
  assumes "state (prog s) = PROG_STATE_WRITEFLASH"
    and "0 < unat (nbytes (prog s))" "length ds \<le> unat (nbytes (prog s))"
    and "pagesize (prog s) \<noteq> 0"
    and "blockflags (prog s) AND PROG_BLOCKFLAG_LAST = 0"
    and "dev_type (chip s) = 0"
    and "prog_pagesize (chip s) = 0"
    and "isp_hiaddr (chip s) = 0"
    and "unat (address (prog s)) + length ds \<le> 32"
    and "low_byte (chip s) \<noteq> 0x10"
    and "0x10 \<notin> set ds"
  shows "count_list (trace (chip (snd (write_loop ds r s)))) (DATA_PORT 0x10)
           = count_list (trace (chip s)) (DATA_PORT 0x10) + length ds
       \<and> prog_pagesize (chip (snd (write_loop ds r s))) = 0"
  using assms
proof (induction ds arbitrary: s r)
  case Nil
  then show ?case by simp
next
  case (Cons d ds)
  define s1 where "s1 = snd (write_byte d r s)"
  define r1 where "r1 = fst (write_byte d r s)"
  have ad: "unat (address (prog s)) < 32" and d: "d \<noteq> 0x10" and ds: "0x10 \<notin> set ds"
    using Cons.prems(9,11) by auto
  note step = write_byte_unset_pagesize [OF Cons.prems(1,4,5,6,7,8) ad Cons.prems(10) d, of r,
      folded s1_def]
  note fl = write_byte_flash [OF Cons.prems(1), of d r, folded s1_def]
  note dec = u16_dec [OF Cons.prems(2)]
  have loop: "write_loop (d # ds) r s = write_loop ds r1 s1"
    by (simp add: split_beta r1_def s1_def)
  show ?case
  proof (cases "unat (nbytes (prog s)) = 1")
    case True
    with Cons.prems(3) have nil: "ds = []" by simp
    have "snd (write_loop (d # ds) r s) = s1"
      unfolding loop by (simp add: nil)
    then show ?thesis
      using step(1,3) by (simp add: nil)
  next
    case False
    then have ne: "nbytes (prog s) \<noteq> 1" using dec(2) by simp
    have st1: "state (prog s1) = PROG_STATE_WRITEFLASH"
      using fl(5) ne by simp
    have N1: "unat (nbytes (prog s1)) = unat (nbytes (prog s)) - 1"
      using fl(3) dec(1) by simp
    have n1: "0 < unat (nbytes (prog s1))" "length ds \<le> unat (nbytes (prog s1))"
      using N1 False Cons.prems(2,3) by simp_all
    have pz1: "pagesize (prog s1) \<noteq> 0" using fl(1) Cons.prems(4) by simp
    have nl1: "blockflags (prog s1) AND PROG_BLOCKFLAG_LAST = 0"
      using fl(2) Cons.prems(5) by simp
    have "unat (address (prog s) + 1) = unat (address (prog s)) + unat (1 :: u32)"
      using ad by (intro unat_add_lem [THEN iffD1]) simp
    then have ad1: "unat (address (prog s1)) + length ds \<le> 32"
      using fl(4) Cons.prems(9) by simp
    from Cons.IH [OF st1 n1 pz1 nl1 step(2,3,5) ad1 step(6) ds, of r1] step(1)
    show ?thesis
      unfolding loop by simp
  qed
qed

text \<open>
  C3. The claim is about the page-write command that opens \<open>parallelWriteFlash\<close>: after
  a stream of 2 \<times> page size words, exactly 2 such commands, each triggered by the page
  counter reaching the page size. The code does not do that. After start-up, on a full-bus
  target, a write-flash command with page size 4, the first-block flag and no last-block
  flag announces 16 bytes (2 \<times> 4 words). \<open>prog_pagesize\<close> is 0 before and after, and
  the page-write command is loaded once per byte: 8 times in the first 8 bytes (2 \<times> 4
  bytes), 16 times in all 16. The page counter of \<open>main.c\<close> meanwhile makes
  \<open>ispFlushPage\<close> run after every fourth byte: 2 times in 8 bytes, 4 times in 16.
\<close>

theorem page_write_command_every_byte:
  "pagesize (prog (paged_write_session 4 1 16)) = 4
   \<and> blockflags (prog (paged_write_session 4 1 16)) AND PROG_BLOCKFLAG_LAST = 0
   \<and> nbytes (prog (paged_write_session 4 1 16)) = 16
   \<and> dev_type (chip (paged_write_session 4 1 16)) = 0
   \<and> prog_pagesize (chip (paged_write_session 4 1 16)) = 0
   \<and> trace (chip (paged_write_session 4 1 16)) = []
   \<and> calls (chip (paged_write_session 4 1 16)) = []
   \<and> count_list
        (trace (chip (snd (write_chunks [[0xA0, 0xA1, 0xA2, 0xA3, 0xA4, 0xA5, 0xA6, 0xA7]]
          (paged_write_session 4 1 16)))))
        (DATA_PORT 0x10) = 8
   \<and> flushes (snd (write_chunks [[0xA0, 0xA1, 0xA2, 0xA3, 0xA4, 0xA5, 0xA6, 0xA7]]
          (paged_write_session 4 1 16))) = 2
   \<and> count_list
        (trace (chip (snd (write_chunks [[0xA0, 0xA1, 0xA2, 0xA3, 0xA4, 0xA5, 0xA6, 0xA7],
                                         [0xA8, 0xA9, 0xAA, 0xAB, 0xAC, 0xAD, 0xAE, 0xAF]]
          (paged_write_session 4 1 16)))))
        (DATA_PORT 0x10) = 16
   \<and> flushes (snd (write_chunks [[0xA0, 0xA1, 0xA2, 0xA3, 0xA4, 0xA5, 0xA6, 0xA7],
                                  [0xA8, 0xA9, 0xAA, 0xAB, 0xAC, 0xAD, 0xAE, 0xAF]]
          (paged_write_session 4 1 16))) = 4
   \<and> prog_pagesize (chip (snd (write_chunks [[0xA0, 0xA1, 0xA2, 0xA3, 0xA4, 0xA5, 0xA6, 0xA7],
                                  [0xA8, 0xA9, 0xAA, 0xAB, 0xAC, 0xAD, 0xAE, 0xAF]]
          (paged_write_session 4 1 16)))) = 0"
proof -
  define S where "S = paged_write_session 4 1 16"
  define c1 :: "u8 list" where "c1 = [0xA0, 0xA1, 0xA2, 0xA3, 0xA4, 0xA5, 0xA6, 0xA7]"
  define c2 :: "u8 list" where "c2 = [0xA8, 0xA9, 0xAA, 0xAB, 0xAC, 0xAD, 0xAE, 0xAF]"
  have p: "prog S
      = \<lparr>state = PROG_STATE_WRITEFLASH, sck_option = USBASP_ISP_SCK_AUTO, address_newmode = 0,
         address = 0, nbytes = 16, pagesize = 4, blockflags = 1, pagecounter = 4\<rparr>"
    by (simp add: S_def paged_write_session_def usbFunctionSetup_def firmware_init_def prog_init_def
        set_address_def short_address_def transfer_length_def PROG_BLOCKFLAG_FIRST_def)
  have ch: "chip S = isp_init silent_pins"
    by (simp add: S_def session_chip)
  have f0: "flushes S = 0" by (simp add: S_def session_flushes)
  have hyp: "state (prog S) = PROG_STATE_WRITEFLASH" "0 < unat (nbytes (prog S))"
    "pagesize (prog S) \<noteq> 0" "blockflags (prog S) AND PROG_BLOCKFLAG_LAST = 0"
    "dev_type (chip S) = 0" "prog_pagesize (chip S) = 0" "isp_hiaddr (chip S) = 0"
    "low_byte (chip S) \<noteq> 0x10"
    by (simp_all add: p ch isp_init_def PROG_BLOCKFLAG_LAST_def)
  have paged: "0 < unat (pagesize (prog S))" "unat (pagesize (prog S)) < 256"
    "0 < unat (pagecounter (prog S))" "unat (pagecounter (prog S)) \<le> unat (pagesize (prog S))"
    by (simp_all add: p)
  have t0: "trace (chip S) = []" by (simp add: ch isp_init_def)
  have count: "count_list (trace (chip (snd (write_chunks chs S)))) (DATA_PORT 0x10) = length (concat chs)
      \<and> prog_pagesize (chip (snd (write_chunks chs S))) = 0"
    if "length (concat chs) \<le> 16" "0x10 \<notin> set (concat chs)" for chs
  proof -
    have le: "length (concat chs) \<le> unat (nbytes (prog S))" using that(1) by (simp add: p)
    have ad: "unat (address (prog S)) + length (concat chs) \<le> 32" using that(1) by (simp add: p)
    have cc: "snd (write_chunks chs S) = snd (write_loop (concat chs) 0 S)"
      by (rule write_chunks_flash [OF hyp(1,2) le])
    from write_loop_unset_pagesize [OF hyp(1,2) le hyp(3,4,5,6,7) ad hyp(8) that(2), of 0]
    show ?thesis unfolding cc by (simp add: t0)
  qed
  have fl: "flushes (snd (write_chunks chs S)) = length (concat chs) div 4"
    if "length (concat chs) \<le> 16" for chs
  proof -
    have le: "length (concat chs) \<le> unat (nbytes (prog S))" using that(1) by (simp add: p)
    from write_chunks_law(5) [OF hyp(1) paged hyp(2) le] show ?thesis
      by (simp add: p f0 PROG_BLOCKFLAG_LAST_def)
  qed
  have a: "count_list (trace (chip (snd (write_chunks [c1] S)))) (DATA_PORT 0x10) = 8"
    using count [of "[c1]"] by (simp add: c1_def)
  have b: "flushes (snd (write_chunks [c1] S)) = 2"
    using fl [of "[c1]"] by (simp add: c1_def)
  have c: "count_list (trace (chip (snd (write_chunks [c1, c2] S)))) (DATA_PORT 0x10) = 16
      \<and> prog_pagesize (chip (snd (write_chunks [c1, c2] S))) = 0"
    using count [of "[c1, c2]"] by (simp add: c1_def c2_def)
  have d: "flushes (snd (write_chunks [c1, c2] S)) = 4"
    using fl [of "[c1, c2]"] by (simp add: c1_def c2_def)
  have e: "calls (chip S) = []" by (simp add: ch isp_init_def)
  from a b c d e t0 hyp show ?thesis
    unfolding S_def [symmetric] c1_def [symmetric] c2_def [symmetric]
    by (simp add: p)
qed

section \<open>The flush that ends a transfer\<close>

text \<open>
  A stream with the last-block flag and the same stream without it: they differ in the flush
  that the last byte of the transfer forces, and in nothing else that is logged.
\<close>

lemma and_not_and:
  fixes x m :: "'a::len word"
  shows "(x AND NOT m) AND m = 0"
  by (rule bit_word_eqI) (auto simp add: bit_simps)

lemma without_last_simps [simp]:
  "state (prog (without_last s)) = state (prog s)"
  "nbytes (prog (without_last s)) = nbytes (prog s)"
  "pagesize (prog (without_last s)) = pagesize (prog s)"
  "pagecounter (prog (without_last s)) = pagecounter (prog s)"
  "address (prog (without_last s)) = address (prog s)"
  "chip (without_last s) = chip s"
  "blockflags (prog (without_last s)) AND PROG_BLOCKFLAG_LAST = 0"
  by (simp_all add: without_last_def and_not_and)

lemma write_byte_mid:
  assumes st: "state (prog s) = PROG_STATE_WRITEFLASH" and n: "nbytes (prog s) \<noteq> 1"
  shows "snd (write_byte d r (without_last s)) = without_last (snd (write_byte d r s))"
  using st n by (simp add: write_byte_def Let_def split_beta without_last_def on_chip_def)

lemma write_byte_final:
  assumes st: "state (prog s) = PROG_STATE_WRITEFLASH" and n: "nbytes (prog s) = 1"
  shows "pagecounter (prog (snd (write_byte d r (without_last s))))
           = pagecounter (prog (snd (write_byte d r s)))"
    and "calls (chip (snd (write_byte d r s)))
           = calls (chip (snd (write_byte d r (without_last s))))
             @ (if blockflags (prog s) AND PROG_BLOCKFLAG_LAST \<noteq> 0
                   \<and> ucast (pagecounter (prog (snd (write_byte d r s)))) \<noteq> pagesize (prog s)
                then [FlushPage (address (prog s)) d] else [])"
  using st n by (simp_all add: write_byte_def Let_def split_beta without_last_def on_chip_def and_not_and)


lemma write_loop_without_last:
  assumes "state (prog s) = PROG_STATE_WRITEFLASH"
    and "0 < unat (nbytes (prog s))" "length ds \<le> unat (nbytes (prog s))"
  shows "pagecounter (prog (snd (write_loop ds r (without_last s))))
           = pagecounter (prog (snd (write_loop ds r s)))
       \<and> calls (chip (snd (write_loop ds r s)))
           = calls (chip (snd (write_loop ds r (without_last s))))
             @ (if length ds = unat (nbytes (prog s))
                   \<and> blockflags (prog s) AND PROG_BLOCKFLAG_LAST \<noteq> 0
                   \<and> ucast (pagecounter (prog (snd (write_loop ds r s)))) \<noteq> pagesize (prog s)
                then [FlushPage (address (prog s) + of_nat (length ds - 1)) (last ds)] else [])"
  using assms
proof (induction ds arbitrary: s r)
  case Nil
  then show ?case by simp
next
  case (Cons d ds)
  define N where "N = unat (nbytes (prog s))"
  define s1 where "s1 = snd (write_byte d r s)"
  define r1 where "r1 = fst (write_byte d r s)"
  define r0 where "r0 = fst (write_byte d r (without_last s))"
  define L where "L = length ds"
  define F where "F = (blockflags (prog s) AND PROG_BLOCKFLAG_LAST \<noteq> 0)"
  note step = write_byte_flash [OF Cons.prems(1), of d r]
  note dec = u16_dec [OF Cons.prems(2)]
  have Npos: "0 < N" and LN: "Suc L \<le> N"
    using Cons.prems by (simp_all add: N_def L_def)
  have loop: "write_loop (d # ds) r s = write_loop ds r1 s1"
    by (simp add: split_beta r1_def s1_def)
  show ?case
  proof (cases "N = 1")
    case True
    with LN have L0: "L = 0" by simp
    then have nil: "ds = []" by (simp add: L_def)
    have one: "nbytes (prog s) = 1"
      using True dec(2) by (simp add: N_def)
    note fin = write_byte_final [OF Cons.prems(1) one, of d r]
    show ?thesis
      unfolding nil using fin True by (simp add: split_beta N_def)
  next
    case False
    then have ne: "nbytes (prog s) \<noteq> 1"
      using dec(2) by (simp add: N_def)
    have loop0: "snd (write_loop (d # ds) r (without_last s))
        = snd (write_loop ds r1 (without_last s1))"
      using write_byte_mid [OF Cons.prems(1) ne, of d r]
        write_loop_snd_indep [of ds r0 "without_last s1" r1]
      by (simp add: split_beta r0_def s1_def)
    have ps1: "pagesize (prog s1) = pagesize (prog s)"
      and bf1: "blockflags (prog s1) = blockflags (prog s)"
      and ad1: "address (prog s1) = address (prog s) + 1"
      using step(1,2,4) by (simp_all add: s1_def)
    have N1: "unat (nbytes (prog s1)) = N - 1"
      using step(3) dec(1) by (simp add: s1_def N_def)
    have st1: "state (prog s1) = PROG_STATE_WRITEFLASH"
      using step(5) ne by (simp add: s1_def)
    have N1pos: "0 < unat (nbytes (prog s1))"
      using N1 Npos False by simp
    have len1: "length ds \<le> unat (nbytes (prog s1))"
      using LN N1 by (simp add: L_def)
    have IH: "pagecounter (prog (snd (write_loop ds r1 (without_last s1))))
           = pagecounter (prog (snd (write_loop ds r1 s1)))
       \<and> calls (chip (snd (write_loop ds r1 s1)))
           = calls (chip (snd (write_loop ds r1 (without_last s1))))
             @ (if L = N - 1 \<and> F
                   \<and> ucast (pagecounter (prog (snd (write_loop ds r1 s1)))) \<noteq> pagesize (prog s)
                then [FlushPage (address (prog s) + 1 + of_nat (L - 1)) (last ds)] else [])"
      using Cons.IH [OF st1 N1pos len1, of r1]
      unfolding N1 bf1 ad1 ps1 L_def [symmetric] F_def [symmetric] .
    have fin: "(L = N - 1) = (Suc L = N)"
      using Npos by auto
    have tail: "(if Suc L = N \<and> F
                   \<and> ucast (pagecounter (prog (snd (write_loop ds r1 s1)))) \<noteq> pagesize (prog s)
                then [FlushPage (address (prog s) + 1 + of_nat (L - 1)) (last ds)] else [])
        = (if Suc L = N \<and> F
                   \<and> ucast (pagecounter (prog (snd (write_loop ds r1 s1)))) \<noteq> pagesize (prog s)
                then [FlushPage (address (prog s) + of_nat (Suc L - 1)) (last (d # ds))] else [])"
    proof (cases "Suc L = N")
      case True
      with False obtain k where k: "L = Suc k" by (cases L) auto
      then have ne: "ds \<noteq> []" by (auto simp add: L_def)
      have "FlushPage (address (prog s) + 1 + of_nat (L - 1)) (last ds)
          = FlushPage (address (prog s) + of_nat (Suc L - 1)) (last (d # ds))"
        using ne by (simp add: k)
      then show ?thesis by (simp only:)
    next
      case False
      then show ?thesis by simp
    qed
    have len: "length (d # ds) = Suc L" by (simp add: L_def)
    show ?thesis
      unfolding loop loop0 len N_def [symmetric] F_def [symmetric]
      using IH unfolding fin tail .
  qed
qed


lemma narrow_counter:
  fixes c :: u8 and P :: u16
  assumes "256 \<le> unat P"
  shows "ucast c \<noteq> P"
proof
  assume "ucast c = P"
  then have "unat (ucast c :: u16) = unat P" by simp
  moreover have c: "unat c < 256" using unsigned_less [of c] by simp
  then have "unat c < 2 ^ 16" by simp
  then have "unat (ucast c :: u16) = unat c"
    by (simp add: unsigned_ucast_eq take_bit_nat_eq_self)
  ultimately show False using assms c by simp
qed

lemma flushes_calls:
  "calls (chip t) = calls (chip t0) @ (if b then [FlushPage a v] else [])
   \<Longrightarrow> flushes t = flushes t0 + (if b then 1 else 0)"
  by (simp add: flushes_def)

lemma last_byte_pending:
  assumes st: "state (prog s) = PROG_STATE_WRITEFLASH"
    and n: "0 < unat (nbytes (prog s))"
    and len: "length (concat chs) = unat (nbytes (prog s))"
    and arm: "pagecounter (prog s) = ucast (pagesize (prog s))"
    and one: "unat (nbytes (prog s)) + 1 = unat (pagesize (prog s))"
  shows "ucast (pagecounter (prog (snd (write_chunks chs s)))) \<noteq> pagesize (prog s)"
proof (cases "unat (pagesize (prog s)) < 256")
  case False
  then show ?thesis by (simp add: narrow_counter)
next
  case True
  define P where "P = unat (pagesize (prog s))"
  have Ppos: "0 < unat (pagesize (prog s))" using one by simp
  note ac = armed_counter [OF Ppos True arm]
  have le: "length (concat chs) \<le> unat (nbytes (prog s))" using len by simp
  note law = write_chunks_law [OF st Ppos True ac(1,2) n le]
  have L: "length (concat chs) = P - 1" using len one by (simp add: P_def)
  have P2: "2 \<le> P" using n one by (simp add: P_def)
  have "P - 1 + P - P = P - 1" by simp
  moreover have "(P - 1) mod P = P - 1" using P2 by simp
  ultimately have m: "(P - 1 + P - P) mod P = P - 1" by simp
  have "unat (pagecounter (prog (snd (write_chunks chs s)))) = P - (P - 1)"
    using law(4) unfolding ac(3) L P_def [symmetric] m .
  then have "unat (pagecounter (prog (snd (write_chunks chs s)))) \<noteq> P"
    using P2 by simp
  then show ?thesis
    using ucast_page(2) [OF True] by (simp add: P_def)
qed

text \<open>
  C4, as the claim states it, fails. A word is two bytes, and the page counter is decremented
  once per byte: with page size 2, a stream of one word (2 bytes) fills the page exactly, so
  with the last-block flag set \<open>ispFlushPage\<close> is entered once, by the counter, exactly
  as without the flag; no additional flush is made. Counted in bytes, the stream must still
  start on a fresh page: with page size 4, when a first block of one byte has left the
  counter at 3, a last block of three bytes fills the page exactly, and again the flag adds
  no flush.
\<close>

theorem final_block_flush_counterexample:
  "pagesize (prog (paged_write_session 2 3 2)) = 2
   \<and> blockflags (prog (paged_write_session 2 3 2)) AND PROG_BLOCKFLAG_LAST \<noteq> 0
   \<and> blockflags (prog (paged_write_session 2 1 2)) AND PROG_BLOCKFLAG_LAST = 0
   \<and> nbytes (prog (paged_write_session 2 3 2)) = 2
   \<and> flushes (paged_write_session 2 3 2) = 0
   \<and> flushes (paged_write_session 2 1 2) = 0
   \<and> flushes (snd (write_chunks [[0x11, 0x22]] (paged_write_session 2 3 2))) = 1
   \<and> flushes (snd (write_chunks [[0x11, 0x22]] (paged_write_session 2 1 2))) = 1
   \<and> pagesize (prog (second_block_session 2)) = 4
   \<and> pagecounter (prog (second_block_session 2)) = 3
   \<and> nbytes (prog (second_block_session 2)) = 3
   \<and> blockflags (prog (second_block_session 2)) AND PROG_BLOCKFLAG_LAST \<noteq> 0
   \<and> blockflags (prog (second_block_session 0)) AND PROG_BLOCKFLAG_LAST = 0
   \<and> flushes (second_block_session 2) = 0
   \<and> flushes (second_block_session 0) = 0
   \<and> flushes (snd (write_chunks [[0x22, 0x33, 0x44]] (second_block_session 2))) = 1
   \<and> flushes (snd (write_chunks [[0x22, 0x33, 0x44]] (second_block_session 0))) = 1"
proof -
  have p: "prog (paged_write_session 2 3 2)
      = \<lparr>state = PROG_STATE_WRITEFLASH, sck_option = USBASP_ISP_SCK_AUTO, address_newmode = 0,
         address = 0, nbytes = 2, pagesize = 2, blockflags = 3, pagecounter = 2\<rparr>"
    "prog (paged_write_session 2 1 2)
      = \<lparr>state = PROG_STATE_WRITEFLASH, sck_option = USBASP_ISP_SCK_AUTO, address_newmode = 0,
         address = 0, nbytes = 2, pagesize = 2, blockflags = 1, pagecounter = 2\<rparr>"
    by (simp_all add: paged_write_session_def usbFunctionSetup_def firmware_init_def prog_init_def
        set_address_def short_address_def transfer_length_def PROG_BLOCKFLAG_FIRST_def)
  have a: "flushes (snd (write_chunks [[0x11, 0x22]] (paged_write_session 2 3 2))) = 1"
    using write_chunks_law(5) [of "paged_write_session 2 3 2" "[[0x11, 0x22]]"]
    by (simp add: p session_flushes PROG_BLOCKFLAG_LAST_def)
  have b: "flushes (snd (write_chunks [[0x11, 0x22]] (paged_write_session 2 1 2))) = 1"
    using write_chunks_law(5) [of "paged_write_session 2 1 2" "[[0x11, 0x22]]"]
    by (simp add: p session_flushes PROG_BLOCKFLAG_LAST_def)
  have p1: "prog (paged_write_session 4 1 1)
      = \<lparr>state = PROG_STATE_WRITEFLASH, sck_option = USBASP_ISP_SCK_AUTO, address_newmode = 0,
         address = 0, nbytes = 1, pagesize = 4, blockflags = 1, pagecounter = 4\<rparr>"
    by (simp add: paged_write_session_def usbFunctionSetup_def firmware_init_def prog_init_def
        set_address_def short_address_def transfer_length_def PROG_BLOCKFLAG_FIRST_def)
  define t where "t = snd (write_chunks [[0x11]] (paged_write_session 4 1 1))"
  have tp: "prog t
      = \<lparr>state = PROG_STATE_IDLE, sck_option = USBASP_ISP_SCK_AUTO, address_newmode = 0,
         address = 1, nbytes = 0, pagesize = 4, blockflags = 1, pagecounter = 3\<rparr>"
    by (simp add: t_def usbFunctionWrite_def write_byte_def p1 Let_def split_beta
        PROG_BLOCKFLAG_LAST_def)
  have tf: "flushes t = 0"
    by (simp add: t_def usbFunctionWrite_def write_byte_def p1 Let_def split_beta
        PROG_BLOCKFLAG_LAST_def session_flushes)
  have q: "prog (second_block_session 2)
      = \<lparr>state = PROG_STATE_WRITEFLASH, sck_option = USBASP_ISP_SCK_AUTO, address_newmode = 0,
         address = 1, nbytes = 3, pagesize = 4, blockflags = 2, pagecounter = 3\<rparr>"
    "prog (second_block_session 0)
      = \<lparr>state = PROG_STATE_WRITEFLASH, sck_option = USBASP_ISP_SCK_AUTO, address_newmode = 0,
         address = 1, nbytes = 3, pagesize = 4, blockflags = 0, pagecounter = 3\<rparr>"
    unfolding second_block_session_def t_def [symmetric]
    by (simp_all add: usbFunctionSetup_def tp
        set_address_def short_address_def transfer_length_def PROG_BLOCKFLAG_FIRST_def)
  have qf: "flushes (second_block_session f) = 0" for f
    unfolding second_block_session_def t_def [symmetric]
    by (simp add: usbFunctionSetup_def tf Let_def)
  have c: "flushes (snd (write_chunks [[0x22, 0x33, 0x44]] (second_block_session 2))) = 1"
    using write_chunks_law(5) [of "second_block_session 2" "[[0x22, 0x33, 0x44]]"]
    by (simp add: q qf PROG_BLOCKFLAG_LAST_def)
  have d: "flushes (snd (write_chunks [[0x22, 0x33, 0x44]] (second_block_session 0))) = 1"
    using write_chunks_law(5) [of "second_block_session 0" "[[0x22, 0x33, 0x44]]"]
    by (simp add: q qf PROG_BLOCKFLAG_LAST_def)
  from a b c d show ?thesis
    by (simp add: p q qf session_flushes PROG_BLOCKFLAG_LAST_def)
qed

text \<open>
  C4, amended. In the flash write data phase, for a stream within the announced byte count:
  the byte count is decremented once per consumed byte; when it reaches 0 the state reverts
  to idle and the call returns the completion flag 1 (0 before); and if the last-block flag
  is set and the page counter differs from the page size, exactly one additional call of
  \<open>ispFlushPage\<close> is made, as the last access of the transfer, for the address and the
  value of the last byte: with the flag the log of calls is the log without the flag plus
  that one entry. So a stream of page size - 1 bytes that starts with the page counter armed
  at the page size and is marked last-of-multi-block triggers exactly one \<open>ispFlushPage\<close>
  beyond what the counter alone triggers.
\<close>

theorem final_block_flush:
  assumes "state (prog s) = PROG_STATE_WRITEFLASH"
    and "0 < unat (nbytes (prog s))" "length (concat chs) \<le> unat (nbytes (prog s))"
  shows "unat (nbytes (prog (snd (write_chunks chs s))))
           = unat (nbytes (prog s)) - length (concat chs)
    \<and> state (prog (snd (write_chunks chs s)))
           = (if length (concat chs) = unat (nbytes (prog s))
              then PROG_STATE_IDLE else PROG_STATE_WRITEFLASH)
    \<and> fst (usbFunctionWrite (concat chs) s)
           = (if length (concat chs) = unat (nbytes (prog s)) then 1 else 0)
    \<and> calls (chip (snd (write_chunks chs s)))
           = calls (chip (snd (write_chunks chs (without_last s))))
             @ (if length (concat chs) = unat (nbytes (prog s))
                   \<and> blockflags (prog s) AND PROG_BLOCKFLAG_LAST \<noteq> 0
                   \<and> ucast (pagecounter (prog (snd (write_chunks chs s))))
                       \<noteq> pagesize (prog (snd (write_chunks chs s)))
                then [FlushPage (address (prog s) + of_nat (length (concat chs) - 1))
                        (last (concat chs))]
                else [])
    \<and> flushes (snd (write_chunks chs s))
           = flushes (snd (write_chunks chs (without_last s)))
             + (if length (concat chs) = unat (nbytes (prog s))
                   \<and> blockflags (prog s) AND PROG_BLOCKFLAG_LAST \<noteq> 0
                   \<and> ucast (pagecounter (prog (snd (write_chunks chs s))))
                       \<noteq> pagesize (prog (snd (write_chunks chs s)))
                then 1 else 0)
    \<and> (pagecounter (prog s) = ucast (pagesize (prog s))
        \<and> unat (nbytes (prog s)) + 1 = unat (pagesize (prog s))
        \<and> length (concat chs) = unat (nbytes (prog s))
        \<longrightarrow> flushes (snd (write_chunks chs s))
             = flushes (snd (write_chunks chs (without_last s)))
               + (if blockflags (prog s) AND PROG_BLOCKFLAG_LAST \<noteq> 0 then 1 else 0))"
proof -
  define e where "e = snd (write_chunks chs s)"
  define e0 where "e0 = snd (write_chunks chs (without_last s))"
  define B where "B = (length (concat chs) = unat (nbytes (prog s))
                   \<and> blockflags (prog s) AND PROG_BLOCKFLAG_LAST \<noteq> 0
                   \<and> ucast (pagecounter (prog e)) \<noteq> pagesize (prog e))"
  have cc: "snd (write_chunks chs s) = snd (write_loop (concat chs) 0 s)"
    by (rule write_chunks_flash [OF assms])
  have cc0: "snd (write_chunks chs (without_last s)) = snd (write_loop (concat chs) 0 (without_last s))"
    by (rule write_chunks_flash) (simp_all add: assms)
  note law = write_loop_flash [OF assms, of 0, folded cc, folded e_def]
  note rel = write_loop_without_last [OF assms, of 0, folded cc cc0, folded e_def e0_def]
  have ps: "pagesize (prog e) = pagesize (prog s)" using law by simp
  have nb: "unat (nbytes (prog e)) = unat (nbytes (prog s)) - length (concat chs)"
    using law by simp
  have st: "state (prog e) = (if length (concat chs) = unat (nbytes (prog s))
              then PROG_STATE_IDLE else PROG_STATE_WRITEFLASH)"
    using law by simp
  have ret: "fst (usbFunctionWrite (concat chs) s)
           = (if length (concat chs) = unat (nbytes (prog s)) then 1 else 0)"
    using write_loop_flash [OF assms, of 0] assms(1) by (simp add: usbFunctionWrite_flash)
  have ca: "calls (chip e) = calls (chip e0)
             @ (if B then [FlushPage (address (prog s) + of_nat (length (concat chs) - 1))
                        (last (concat chs))] else [])"
    using rel unfolding B_def ps by simp
  have fl: "flushes e = flushes e0 + (if B then 1 else 0)"
    using ca by (rule flushes_calls)
  have inst: "flushes e = flushes e0 + (if blockflags (prog s) AND PROG_BLOCKFLAG_LAST \<noteq> 0 then 1 else 0)"
    if arm: "pagecounter (prog s) = ucast (pagesize (prog s))"
      and one: "unat (nbytes (prog s)) + 1 = unat (pagesize (prog s))"
      and len: "length (concat chs) = unat (nbytes (prog s))"
  proof -
    have "ucast (pagecounter (prog e)) \<noteq> pagesize (prog s)"
      unfolding e_def by (rule last_byte_pending [OF assms(1,2) len arm one])
    then have "B = (blockflags (prog s) AND PROG_BLOCKFLAG_LAST \<noteq> 0)"
      using len by (simp add: B_def ps)
    with fl show ?thesis by simp
  qed
  from nb st ret ca fl inst show ?thesis
    unfolding e_def e0_def B_def by blast
qed

theorem final_block_flush_witness:
  "state (prog (paged_write_session 4 3 3)) = PROG_STATE_WRITEFLASH
   \<and> pagesize (prog (paged_write_session 4 3 3)) = 4
   \<and> pagecounter (prog (paged_write_session 4 3 3)) = 4
   \<and> nbytes (prog (paged_write_session 4 3 3)) = 3
   \<and> blockflags (prog (paged_write_session 4 3 3)) AND PROG_BLOCKFLAG_LAST \<noteq> 0
   \<and> nbytes (prog (snd (write_chunks [[0x11, 0x22], [0x33]] (paged_write_session 4 3 3)))) = 0
   \<and> state (prog (snd (write_chunks [[0x11, 0x22], [0x33]] (paged_write_session 4 3 3))))
       = PROG_STATE_IDLE
   \<and> fst (usbFunctionWrite [0x11, 0x22, 0x33] (paged_write_session 4 3 3)) = 1
   \<and> calls (chip (snd (write_chunks [[0x11, 0x22], [0x33]] (without_last (paged_write_session 4 3 3)))))
       = [WriteFlash 0 0x11 0, WriteFlash 1 0x22 0, WriteFlash 2 0x33 0]
   \<and> calls (chip (snd (write_chunks [[0x11, 0x22], [0x33]] (paged_write_session 4 3 3))))
       = [WriteFlash 0 0x11 0, WriteFlash 1 0x22 0, WriteFlash 2 0x33 0, FlushPage 2 0x33]
   \<and> flushes (snd (write_chunks [[0x11, 0x22], [0x33]] (paged_write_session 4 3 3))) = 1"
proof -
  define S where "S = paged_write_session 4 3 3"
  define chs :: "u8 list list" where "chs = [[0x11, 0x22], [0x33]]"
  have p: "prog S
      = \<lparr>state = PROG_STATE_WRITEFLASH, sck_option = USBASP_ISP_SCK_AUTO, address_newmode = 0,
         address = 0, nbytes = 3, pagesize = 4, blockflags = 3, pagecounter = 4\<rparr>"
    by (simp add: S_def paged_write_session_def usbFunctionSetup_def firmware_init_def prog_init_def
        set_address_def short_address_def transfer_length_def PROG_BLOCKFLAG_FIRST_def)
  have p0: "prog (without_last S)
      = \<lparr>state = PROG_STATE_WRITEFLASH, sck_option = USBASP_ISP_SCK_AUTO, address_newmode = 0,
         address = 0, nbytes = 3, pagesize = 4, blockflags = 1, pagecounter = 4\<rparr>"
    by (simp add: without_last_def p PROG_BLOCKFLAG_LAST_def)
  have "calls (chip (paged_write_session 4 3 3)) = []"
    by (simp add: session_chip isp_init_def)
  then have c0: "calls (chip S) = []"
    by (simp add: S_def)
  have e0: "calls (chip (snd (write_chunks chs (without_last S))))
       = [WriteFlash 0 0x11 0, WriteFlash 1 0x22 0, WriteFlash 2 0x33 0]"
    by (simp add: chs_def usbFunctionWrite_def write_byte_def p0 c0 Let_def split_beta
        PROG_BLOCKFLAG_LAST_def)
  have cc: "concat chs = [0x11, 0x22, 0x33]" by (simp add: chs_def)
  have hyp: "state (prog S) = PROG_STATE_WRITEFLASH" "0 < unat (nbytes (prog S))"
    "length (concat chs) \<le> unat (nbytes (prog S))"
    by (simp_all add: p cc)
  note th = final_block_flush [OF hyp]
  have arm: "pagecounter (prog S) = ucast (pagesize (prog S))
        \<and> unat (nbytes (prog S)) + 1 = unat (pagesize (prog S))
        \<and> length (concat chs) = unat (nbytes (prog S))"
    by (simp add: p cc)
  from th arm have fl: "flushes (snd (write_chunks chs S))
             = flushes (snd (write_chunks chs (without_last S)))
               + (if blockflags (prog S) AND PROG_BLOCKFLAG_LAST \<noteq> 0 then 1 else 0)"
    by blast
  have f0: "flushes (snd (write_chunks chs (without_last S))) = 0"
    by (simp add: flushes_def e0)
  have f1: "flushes (snd (write_chunks chs S)) = 1"
    using fl f0 by (simp add: p PROG_BLOCKFLAG_LAST_def)
  from th have fB: "flushes (snd (write_chunks chs S))
           = flushes (snd (write_chunks chs (without_last S)))
             + (if length (concat chs) = unat (nbytes (prog S))
                   \<and> blockflags (prog S) AND PROG_BLOCKFLAG_LAST \<noteq> 0
                   \<and> ucast (pagecounter (prog (snd (write_chunks chs S))))
                       \<noteq> pagesize (prog (snd (write_chunks chs S)))
                then 1 else 0)"
    by blast
  have B: "length (concat chs) = unat (nbytes (prog S))
                   \<and> blockflags (prog S) AND PROG_BLOCKFLAG_LAST \<noteq> 0
                   \<and> ucast (pagecounter (prog (snd (write_chunks chs S))))
                       \<noteq> pagesize (prog (snd (write_chunks chs S)))"
    using fB unfolding f0 f1 by (simp split: if_splits)
  from th B have ca: "calls (chip (snd (write_chunks chs S)))
       = calls (chip (snd (write_chunks chs (without_last S))))
         @ [FlushPage (address (prog S) + of_nat (length (concat chs) - 1)) (last (concat chs))]"
    by simp
  have ca': "calls (chip (snd (write_chunks chs S)))
       = [WriteFlash 0 0x11 0, WriteFlash 1 0x22 0, WriteFlash 2 0x33 0, FlushPage 2 0x33]"
    unfolding ca e0 by (simp add: p cc)
  from th have nb: "unat (nbytes (prog (snd (write_chunks chs S)))) = 0"
    and st: "state (prog (snd (write_chunks chs S))) = PROG_STATE_IDLE"
    and rt: "fst (usbFunctionWrite (concat chs) S) = 1"
    by (simp_all add: p cc)
  from nb have nb': "nbytes (prog (snd (write_chunks chs S))) = 0"
    by (simp add: unat_eq_0)
  from nb' st rt e0 ca' f1 show ?thesis
    unfolding S_def [symmetric] chs_def [symmetric] cc [symmetric]
    by (simp add: p PROG_BLOCKFLAG_LAST_def)
qed

section \<open>Device detection\<close>

lemma appended_refl: "trace s' = trace s \<Longrightarrow> appended s s' 0"
  by (simp add: appended_def)

lemma appended_trans:
  "appended s s' n \<Longrightarrow> appended s' s'' m \<Longrightarrow> appended s s'' (n + m)"
  by (auto simp: appended_def)

lemma appended_count: "appended s s' n \<Longrightarrow> count_list (new_events s s') (Low VDD) = n"
  by (auto simp: appended_def new_events_def)

lemma appended_serial:
  "appended s (snd (avr_serialExchange i d s)) 0"
proof -
  obtain es where e: "trace (snd (avr_serialExchange i d s)) = trace s @ es"
    and l: "list_all serial_event es"
    using avr_serialExchange_events by blast
  from l have "Low VDD \<notin> set es" by (auto simp: list_all_iff)
  with e show ?thesis by (auto simp: appended_def)
qed

lemma avr_getId_frame [simp]:
  "prog_pagesize (snd (avr_getId i s)) = prog_pagesize s"
  "prog_pagecounter (snd (avr_getId i s)) = prog_pagecounter s"
  "low_byte (snd (avr_getId i s)) = low_byte s"
  "isp_hiaddr (snd (avr_getId i s)) = isp_hiaddr s"
  "dev_type (snd (avr_getId i s)) = dev_type s"
  "pin (snd (avr_getId i s)) = pin s"
  "calls (snd (avr_getId i s)) = calls s"
  "nreads (snd (avr_getId i s)) = nreads s + samples_per_read s"
  by (simp_all add: avr_getId_def samples_per_read_def Let_def split_beta)

lemma avr_getId_appended: "appended s (snd (avr_getId i s)) 0"
proof (cases "dev_type s = 0x00 \<or> dev_type s = 0x01")
  case True
  then show ?thesis
    by (auto simp add: avr_getId_def Let_def split_beta appended_def loadComm_events_def
        loadAdd_events_def puls_events_def)
next
  case False
  have "appended s s 0" by (simp add: appended_refl)
  from appended_trans [OF appended_trans [OF appended_trans [OF appended_trans [OF this
    appended_serial] appended_serial] appended_serial] appended_serial]
  show ?thesis using False
    by (simp add: avr_getId_def Let_def split_beta)
qed

lemma id_poll_frame:
  "prog_pagesize (id_poll t s) = prog_pagesize s \<and>
   prog_pagecounter (id_poll t s) = prog_pagecounter s \<and>
   low_byte (id_poll t s) = low_byte s \<and>
   isp_hiaddr (id_poll t s) = isp_hiaddr s \<and>
   dev_type (id_poll t s) = dev_type s \<and>
   pin (id_poll t s) = pin s \<and>
   calls (id_poll t s) = calls s \<and>
   nreads s \<le> nreads (id_poll t s) \<and>
   appended s (id_poll t s) 0"
proof (induction t s rule: id_poll.induct)
  case (1 timeout s)
  let ?s1 = "snd (avr_getId 0 s)"
  show ?case
  proof (cases "fst (avr_getId 0 s) \<noteq> 0x1E \<and> \<not> 1000 < timeout")
    case True
    then have eq: "id_poll timeout s = id_poll (timeout + 1) (emit [Delay_ms 1] ?s1)"
      by (subst id_poll.simps) (simp add: split_beta Let_def)
    have ap: "appended s (emit [Delay_ms 1] ?s1) 0"
      using avr_getId_appended [of s 0] by (auto simp: appended_def)
    from True 1 [OF refl prod.collapse] have IH: "prog_pagesize (id_poll (timeout + 1) (emit [Delay_ms 1] ?s1)) = prog_pagesize (emit [Delay_ms 1] ?s1) \<and>
   prog_pagecounter (id_poll (timeout + 1) (emit [Delay_ms 1] ?s1)) = prog_pagecounter (emit [Delay_ms 1] ?s1) \<and>
   low_byte (id_poll (timeout + 1) (emit [Delay_ms 1] ?s1)) = low_byte (emit [Delay_ms 1] ?s1) \<and>
   isp_hiaddr (id_poll (timeout + 1) (emit [Delay_ms 1] ?s1)) = isp_hiaddr (emit [Delay_ms 1] ?s1) \<and>
   dev_type (id_poll (timeout + 1) (emit [Delay_ms 1] ?s1)) = dev_type (emit [Delay_ms 1] ?s1) \<and>
   pin (id_poll (timeout + 1) (emit [Delay_ms 1] ?s1)) = pin (emit [Delay_ms 1] ?s1) \<and>
   calls (id_poll (timeout + 1) (emit [Delay_ms 1] ?s1)) = calls (emit [Delay_ms 1] ?s1) \<and>
   nreads (emit [Delay_ms 1] ?s1) \<le> nreads (id_poll (timeout + 1) (emit [Delay_ms 1] ?s1)) \<and>
   appended (emit [Delay_ms 1] ?s1) (id_poll (timeout + 1) (emit [Delay_ms 1] ?s1)) 0"
      by simp
    then show ?thesis
      unfolding eq using appended_trans [OF ap, of "id_poll (timeout + 1) (emit [Delay_ms 1] ?s1)" 0]
      by simp
  next
    case False
    then have eq: "id_poll timeout s = ?s1"
      by (subst id_poll.simps) (auto simp add: split_beta Let_def)
    show ?thesis
      unfolding eq using avr_getId_appended [of s 0] by simp
  qed
qed

lemma id_poll_bound:
  "unat t \<le> 1001 \<Longrightarrow>
   nreads (id_poll t s) \<le> nreads s + samples_per_read s * (1002 - unat t)"
proof (induction t s rule: id_poll.induct)
  case (1 timeout s)
  let ?s1 = "snd (avr_getId 0 s)"
  let ?k = "samples_per_read s"
  show ?case
  proof (cases "fst (avr_getId 0 s) \<noteq> 0x1E \<and> \<not> 1000 < timeout")
    case True
    then have eq: "id_poll timeout s = id_poll (timeout + 1) (emit [Delay_ms 1] ?s1)"
      by (subst id_poll.simps) (simp add: split_beta Let_def)
    from True have le: "unat timeout \<le> 1000"
      by (simp add: word_less_nat_alt)
    then have "unat timeout + unat (1 :: u16) < 2 ^ LENGTH(16)"
      by simp
    then have "unat (timeout + 1) = unat timeout + unat (1 :: u16)"
      by (simp only: unat_add_lem)
    then have suc: "unat (timeout + 1) = Suc (unat timeout)" by simp
    with le have le1: "unat (timeout + 1) \<le> 1001" by simp
    have k: "samples_per_read (emit [Delay_ms 1] ?s1) = ?k"
      by (simp add: samples_per_read_def)
    from True "1.IH" [OF refl prod.collapse _ _ le1]
    have "nreads (id_poll (timeout + 1) (emit [Delay_ms 1] ?s1))
        \<le> nreads (emit [Delay_ms 1] ?s1) + ?k * (1002 - unat (timeout + 1))"
      unfolding k by simp
    then have A: "nreads (id_poll timeout s) \<le> nreads s + (?k + ?k * (1001 - unat timeout))"
      unfolding eq suc by simp
    have "1002 - unat timeout = Suc (1001 - unat timeout)" using le by simp
    then have B: "?k + ?k * (1001 - unat timeout) = ?k * (1002 - unat timeout)"
      by simp
    show ?thesis using A unfolding B .
  next
    case False
    then have eq: "id_poll timeout s = ?s1"
      by (subst id_poll.simps) (auto simp add: split_beta Let_def)
    have "1 \<le> 1002 - unat timeout" using "1.prems" by simp
    then have "?k * 1 \<le> ?k * (1002 - unat timeout)"
      by (rule mult_le_mono2)
    then show ?thesis unfolding eq by simp
  qed
qed

lemma entry_facts:
  "dev_type (enter_full_bus s) = 0x00" "pin (enter_full_bus s) = pin s"
  "nreads (enter_full_bus s) = nreads s" "appended s (enter_full_bus s) 0"
  "dev_type (enter_short_bus s) = 0x01" "pin (enter_short_bus s) = pin s"
  "nreads (enter_short_bus s) = nreads s" "appended s (enter_short_bus s) 1"
  "dev_type (enter_serial_hv s) = 0x02" "pin (enter_serial_hv s) = pin s"
  "nreads (enter_serial_hv s) = nreads s" "appended s (enter_serial_hv s) 1"
  by (simp_all add: enter_full_bus_def enter_short_bus_def enter_serial_hv_def appended_def
      emit_def)

lemma probe_facts:
  assumes "dev_type (entry s) = d" "pin (entry s) = pin s" "nreads (entry s) = nreads s"
    "appended s (entry s) n"
  shows "dev_type (snd (probe entry s)) = d"
    and "pin (snd (probe entry s)) = pin s"
    and "nreads s \<le> nreads (snd (probe entry s))"
    and "nreads (snd (probe entry s))
          \<le> nreads s + (if d = 0x00 \<or> d = 0x01 then 1 else 44) * 1003"
    and "appended s (snd (probe entry s)) n"
proof -
  let ?e = "entry s"
  let ?p = "id_poll 0 ?e"
  note fr = id_poll_frame [of 0 ?e]
  have k: "samples_per_read ?e = (if d = 0x00 \<or> d = 0x01 then 1 else 44)"
    "samples_per_read ?p = (if d = 0x00 \<or> d = 0x01 then 1 else 44)"
    using fr assms(1) by (simp_all add: samples_per_read_def)
  show "dev_type (snd (probe entry s)) = d"
    using fr assms(1) by (simp add: probe_def)
  show "pin (snd (probe entry s)) = pin s"
    using fr assms(2) by (simp add: probe_def)
  show "nreads s \<le> nreads (snd (probe entry s))"
    using fr assms(3) by (simp add: probe_def)
  have "nreads ?p \<le> nreads ?e + samples_per_read ?e * (1002 - unat (0 :: u16))"
    by (rule id_poll_bound) simp
  then have "nreads ?p \<le> nreads s + (if d = 0x00 \<or> d = 0x01 then 1 else 44) * 1002"
    unfolding k assms(3) by simp
  then show "nreads (snd (probe entry s))
          \<le> nreads s + (if d = 0x00 \<or> d = 0x01 then 1 else 44) * 1003"
    by (simp add: probe_def k)
  have "appended ?e ?p 0" using fr by simp
  from appended_trans [OF appended_trans [OF assms(4) this] avr_getId_appended [of ?p 0]]
  show "appended s (snd (probe entry s)) n"
    by (simp add: probe_def)
qed

lemma avr_progMode_probes:
  "avr_progMode s =
     (if fst (probe enter_full_bus s) = 0x1E then (0, snd (probe enter_full_bus s))
      else if fst (probe enter_short_bus (snd (probe enter_full_bus s))) = 0x1E
        then (0, snd (probe enter_short_bus (snd (probe enter_full_bus s))))
      else if fst (probe enter_serial_hv (snd (probe enter_short_bus (snd (probe enter_full_bus s)))))
                = 0x1E
        then (0, snd (probe enter_serial_hv (snd (probe enter_short_bus (snd (probe enter_full_bus s))))))
      else (1, snd (probe enter_serial_hv (snd (probe enter_short_bus (snd (probe enter_full_bus s)))))))"
  by (simp add: avr_progMode_def probe_def Let_def split_beta)

lemma detection_cases:
  "(let A = snd (probe enter_full_bus s);
        B = snd (probe enter_short_bus A);
        C = snd (probe enter_serial_hv B)
    in (fst (probe enter_full_bus s) = 0x1E \<longrightarrow>
          avr_progMode s = (0, A) \<and> dev_type A = 0x00
          \<and> count_list (new_events s A) (Low VDD) = 0)
     \<and> (fst (probe enter_full_bus s) \<noteq> 0x1E \<and> fst (probe enter_short_bus A) = 0x1E \<longrightarrow>
          avr_progMode s = (0, B) \<and> dev_type B = 0x01
          \<and> count_list (new_events s B) (Low VDD) = 1)
     \<and> (fst (probe enter_full_bus s) \<noteq> 0x1E \<and> fst (probe enter_short_bus A) \<noteq> 0x1E
          \<and> fst (probe enter_serial_hv B) = 0x1E \<longrightarrow>
          avr_progMode s = (0, C) \<and> dev_type C = 0x02
          \<and> count_list (new_events s C) (Low VDD) = 2)
     \<and> (fst (probe enter_full_bus s) \<noteq> 0x1E \<and> fst (probe enter_short_bus A) \<noteq> 0x1E
          \<and> fst (probe enter_serial_hv B) \<noteq> 0x1E \<longrightarrow>
          avr_progMode s = (1, C) \<and> dev_type C = 0x02
          \<and> count_list (new_events s C) (Low VDD) = 2)
     \<and> nreads A \<le> nreads s + 1003
     \<and> nreads B \<le> nreads A + 1003
     \<and> nreads C \<le> nreads B + 44132
     \<and> nreads (snd (avr_progMode s)) \<le> nreads s + 46138)"
proof -
  define A where "A = snd (probe enter_full_bus s)"
  define B where "B = snd (probe enter_short_bus A)"
  define C where "C = snd (probe enter_serial_hv B)"
  note a = probe_facts [where entry = enter_full_bus and s = s, OF entry_facts(1-4), folded A_def]
  note b = probe_facts [where entry = enter_short_bus and s = A, OF entry_facts(5-8), folded B_def]
  note c = probe_facts [where entry = enter_serial_hv and s = B, OF entry_facts(9-12), folded C_def]
  have cntA: "count_list (new_events s A) (Low VDD) = 0"
    using a(5) by (rule appended_count)
  have cntB: "count_list (new_events s B) (Low VDD) = 1"
    using appended_trans [OF a(5) b(5)] appended_count by fastforce
  have cntC: "count_list (new_events s C) (Low VDD) = 2"
    using appended_trans [OF appended_trans [OF a(5) b(5)] c(5)] appended_count by fastforce
  have nA: "nreads A \<le> nreads s + 1003" using a(4) by simp
  have nB: "nreads B \<le> nreads A + 1003" using b(4) by simp
  have nC: "nreads C \<le> nreads B + 44132" using c(4) by simp
  have res: "snd (avr_progMode s) = A \<or> snd (avr_progMode s) = B \<or> snd (avr_progMode s) = C"
    unfolding avr_progMode_probes A_def B_def C_def by simp
  have tot: "nreads (snd (avr_progMode s)) \<le> nreads s + 46138"
    using res nA nB nC a(3) b(3) c(3) by auto
  show ?thesis
    unfolding Let_def A_def [symmetric] B_def [symmetric] C_def [symmetric]
    using cntA cntB cntC nA nB nC tot a(1) b(1) c(1)
    by (simp add: avr_progMode_probes A_def [symmetric] B_def [symmetric] C_def [symmetric])
qed

lemma avr_getId_parallel:
  "dev_type s = 0x00 \<or> dev_type s = 0x01 \<Longrightarrow> fst (avr_getId i s) = pin s (nreads s)"
  by (auto simp add: avr_getId_def Let_def split_beta)

lemma id_poll_match:
  "fst (avr_getId 0 s) = 0x1E \<Longrightarrow> id_poll t s = snd (avr_getId 0 s)"
  by (subst id_poll.simps) (simp add: split_beta Let_def)

lemma id_poll_exhaust:
  "dev_type s = 0x00 \<or> dev_type s = 0x01 \<Longrightarrow> unat t \<le> 1001 \<Longrightarrow>
   \<forall>n < 1002 - unat t. pin s (nreads s + n) \<noteq> 0x1E \<Longrightarrow>
   nreads (id_poll t s) = nreads s + (1002 - unat t)"
proof (induction t s rule: id_poll.induct)
  case (1 timeout s)
  let ?s1 = "snd (avr_getId 0 s)"
  let ?s2 = "emit [Delay_ms 1] ?s1"
  have k: "samples_per_read s = 1"
    using "1.prems"(1) by (simp add: samples_per_read_def)
  have "0 < 1002 - unat timeout" using "1.prems"(2) by simp
  with "1.prems"(3) have "pin s (nreads s + 0) \<noteq> 0x1E" by blast
  then have miss: "fst (avr_getId 0 s) \<noteq> 0x1E"
    using avr_getId_parallel [OF "1.prems"(1), of 0] by simp
  show ?case
  proof (cases "1000 < timeout")
    case True
    then have "1000 < unat timeout" by (simp add: word_less_nat_alt)
    with "1.prems"(2) have t: "unat timeout = 1001" by simp
    from miss True have "id_poll timeout s = ?s1"
      by (subst id_poll.simps) (simp add: split_beta Let_def)
    then show ?thesis by (simp add: k t)
  next
    case False
    with miss have eq: "id_poll timeout s = id_poll (timeout + 1) ?s2"
      by (subst id_poll.simps) (simp add: split_beta Let_def)
    from False have le: "unat timeout \<le> 1000"
      by (simp add: word_less_nat_alt)
    then have "unat timeout + unat (1 :: u16) < 2 ^ LENGTH(16)"
      by simp
    then have "unat (timeout + 1) = unat timeout + unat (1 :: u16)"
      by (simp only: unat_add_lem)
    then have suc: "unat (timeout + 1) = Suc (unat timeout)" by simp
    with le have le1: "unat (timeout + 1) \<le> 1001" by simp
    have dev: "dev_type ?s2 = 0x00 \<or> dev_type ?s2 = 0x01"
      using "1.prems"(1) by simp
    have pins: "\<forall>n < 1002 - unat (timeout + 1). pin ?s2 (nreads ?s2 + n) \<noteq> 0x1E"
    proof (intro allI impI)
      fix n assume "n < 1002 - unat (timeout + 1)"
      then have "Suc n < 1002 - unat timeout" unfolding suc by simp
      with "1.prems"(3) have "pin s (nreads s + Suc n) \<noteq> 0x1E" by blast
      then show "pin ?s2 (nreads ?s2 + n) \<noteq> 0x1E" by (simp add: k)
    qed
    from "1.IH" [OF refl prod.collapse miss False dev le1 pins]
    have "nreads (id_poll (timeout + 1) ?s2) = nreads ?s2 + (1002 - unat (timeout + 1))" .
    then show ?thesis
      unfolding eq suc using le by (simp add: k)
  qed
qed

lemma quiet_serial_bits:
  "quiet s \<Longrightarrow> fst (serial_bits k c d r s) = r \<and> quiet (snd (serial_bits k c d r s))"
proof (induction k arbitrary: r s)
  case 0
  then show ?case by simp
next
  case (Suc k)
  from Suc.prems have z: "pin s (nreads s) = 0" by (simp add: quiet_def)
  then have r: "fst (serial_bit k c d r s) = r"
    by (simp add: serial_bit_def Let_def split_beta)
  have "quiet (snd (serial_bit k c d r s))"
    using Suc.prems by (simp add: quiet_def serial_bit_frame)
  from Suc.IH [OF this, of r] r show ?case
    by (simp add: split_beta)
qed

lemma quiet_exchange:
  "quiet s \<Longrightarrow> fst (avr_serialExchange i d s) = 0 \<and> quiet (snd (avr_serialExchange i d s))"
proof -
  assume "quiet s"
  then have "quiet (emit [DATA_IN] s)" by (simp add: quiet_def)
  from quiet_serial_bits [OF this, of 11 "push_bit 2 (ucast i)" "push_bit 2 (ucast d)" 0]
  show ?thesis by (simp add: avr_serialExchange_def Let_def split_beta)
qed

lemma quiet_getId:
  "quiet s \<Longrightarrow> fst (avr_getId i s) = 0 \<and> quiet (snd (avr_getId i s))"
proof (cases "dev_type s = 0x00 \<or> dev_type s = 0x01")
  case True
  assume q: "quiet s"
  then have "pin s (nreads s) = 0" by (simp add: quiet_def)
  with avr_getId_parallel [OF True, of i] have "fst (avr_getId i s) = 0" by simp
  moreover have "quiet (snd (avr_getId i s))"
    using q by (simp add: quiet_def)
  ultimately show ?thesis by simp
next
  case False
  assume q: "quiet s"
  note a = quiet_exchange [OF q, of "0x4C" "0x08"]
  note b = quiet_exchange [OF a [THEN conjunct2], of "0x0C" i]
  note c = quiet_exchange [OF b [THEN conjunct2], of "0x68" "0x00"]
  note d = quiet_exchange [OF c [THEN conjunct2], of "0x6C" "0x00"]
  from d False show ?thesis
    by (simp add: avr_getId_def Let_def split_beta)
qed

lemma quiet_probe:
  assumes "quiet s" "pin (entry s) = pin s" "nreads (entry s) = nreads s"
  shows "fst (probe entry s) = 0" "quiet (snd (probe entry s))"
proof -
  have "quiet (entry s)" using assms by (simp add: quiet_def)
  then have "quiet (id_poll 0 (entry s))"
    using id_poll_frame [of 0 "entry s"] by (auto simp: quiet_def)
  from quiet_getId [OF this, of 0]
  show "fst (probe entry s) = 0" "quiet (snd (probe entry s))"
    by (simp_all add: probe_def)
qed

lemma avr_getId_serial:
  "dev_type s \<noteq> 0x00 \<Longrightarrow> dev_type s \<noteq> 0x01 \<Longrightarrow>
   fst (avr_getId i s) = ucast (drop_bit 3 (sampled (pin s) (nreads s + 33) 11 0))"
  by (simp add: avr_getId_def Let_def split_beta avr_serialExchange_result add.commute)

lemma sampled_serial_pins:
  "ucast (drop_bit 3 (sampled serial_pins 2039 11 0)) = (0x1E :: u8)"
  "ucast (drop_bit 3 (sampled serial_pins 2083 11 0)) = (0x1E :: u8)"
  by code_simp+

lemma steady_run:
  "fst (probe enter_full_bus (isp_init steady_pins)) = 0x1E"
  "nreads (snd (probe enter_full_bus (isp_init steady_pins))) = 2"
proof -
  let ?e = "enter_full_bus (isp_init steady_pins)"
  have e: "dev_type ?e = 0x00 \<or> dev_type ?e = 0x01" "nreads ?e = 0" "pin ?e = steady_pins"
    by (simp_all add: entry_facts isp_init_def)
  have m: "fst (avr_getId 0 ?e) = 0x1E"
    using avr_getId_parallel [OF e(1), of 0] by (simp add: e steady_pins_def)
  have p: "id_poll 0 ?e = snd (avr_getId 0 ?e)"
    using m by (rule id_poll_match)
  have d: "dev_type (snd (avr_getId 0 ?e)) = 0x00 \<or> dev_type (snd (avr_getId 0 ?e)) = 0x01"
    using e(1) by simp
  show "fst (probe enter_full_bus (isp_init steady_pins)) = 0x1E"
    unfolding probe_def p using avr_getId_parallel [OF d, of 0]
    by (simp add: e steady_pins_def)
  show "nreads (snd (probe enter_full_bus (isp_init steady_pins))) = 2"
    unfolding probe_def p using e(1) by (auto simp add: e samples_per_read_def)
qed

lemma parallel_exhausted:
  assumes "dev_type (entry s) = 0x00 \<or> dev_type (entry s) = 0x01"
    and "pin (entry s) = pin s" "nreads (entry s) = nreads s"
    and "\<forall>n < 1003. pin s (nreads s + n) = 0"
  shows "fst (probe entry s) = 0" "nreads (snd (probe entry s)) = nreads s + 1003"
    "pin (snd (probe entry s)) = pin s"
proof -
  let ?e = "entry s"
  have "\<forall>n < 1002 - unat (0 :: u16). pin ?e (nreads ?e + n) \<noteq> 0x1E"
    using assms(2,3,4) by simp
  from id_poll_exhaust [OF assms(1) _ this] have n: "nreads (id_poll 0 ?e) = nreads s + 1002"
    by (simp add: assms(3))
  note fr = id_poll_frame [of 0 ?e]
  have d: "dev_type (id_poll 0 ?e) = 0x00 \<or> dev_type (id_poll 0 ?e) = 0x01"
    using fr assms(1) by simp
  have "pin s (nreads s + 1002) = 0" using assms(4) by simp
  then show "fst (probe entry s) = 0"
    unfolding probe_def using avr_getId_parallel [OF d, of 0] fr
    by (simp add: n assms(2))
  show "nreads (snd (probe entry s)) = nreads s + 1003"
    unfolding probe_def using d by (auto simp add: n samples_per_read_def)
  show "pin (snd (probe entry s)) = pin s"
    unfolding probe_def using fr by (simp add: assms(2))
qed

lemma short_bus_run:
  "fst (probe enter_full_bus (isp_init short_bus_pins)) \<noteq> 0x1E"
  "fst (probe enter_short_bus (snd (probe enter_full_bus (isp_init short_bus_pins)))) = 0x1E"
proof -
  define A where "A = snd (probe enter_full_bus (isp_init short_bus_pins))"
  have s: "nreads (isp_init short_bus_pins) = 0" "pin (isp_init short_bus_pins) = short_bus_pins"
    by (simp_all add: isp_init_def)
  have low: "\<forall>n < 1003. pin (isp_init short_bus_pins) (nreads (isp_init short_bus_pins) + n) = 0"
    by (simp add: s short_bus_pins_def)
  note a = parallel_exhausted [where entry = enter_full_bus and s = "isp_init short_bus_pins",
      OF _ entry_facts(2,3) low, simplified entry_facts s, folded A_def]
  show "fst (probe enter_full_bus (isp_init short_bus_pins)) \<noteq> 0x1E"
    using a(1) by simp
  let ?f = "enter_short_bus A"
  have f: "dev_type ?f = 0x00 \<or> dev_type ?f = 0x01" "nreads ?f = 1003" "pin ?f = short_bus_pins"
    using a by (simp_all add: entry_facts)
  have m: "fst (avr_getId 0 ?f) = 0x1E"
    using avr_getId_parallel [OF f(1), of 0] by (simp add: f short_bus_pins_def)
  have p: "id_poll 0 ?f = snd (avr_getId 0 ?f)"
    using m by (rule id_poll_match)
  have d2: "dev_type (snd (avr_getId 0 ?f)) = 0x00 \<or> dev_type (snd (avr_getId 0 ?f)) = 0x01"
    using f(1) by simp
  have s1: "samples_per_read ?f = 1" using f(1) by (auto simp: samples_per_read_def)
  have "fst (probe enter_short_bus A) = 0x1E"
    unfolding probe_def p using avr_getId_parallel [OF d2, of 0]
    by (simp add: f s1 short_bus_pins_def)
  then show "fst (probe enter_short_bus (snd (probe enter_full_bus (isp_init short_bus_pins)))) = 0x1E"
    unfolding A_def .
qed

lemma serial_run:
  "fst (probe enter_full_bus (isp_init serial_pins)) \<noteq> 0x1E"
  "fst (probe enter_short_bus (snd (probe enter_full_bus (isp_init serial_pins)))) \<noteq> 0x1E"
  "fst (probe enter_serial_hv (snd (probe enter_short_bus
      (snd (probe enter_full_bus (isp_init serial_pins)))))) = 0x1E"
proof -
  define A where "A = snd (probe enter_full_bus (isp_init serial_pins))"
  define B where "B = snd (probe enter_short_bus A)"
  have s: "nreads (isp_init serial_pins) = 0" "pin (isp_init serial_pins) = serial_pins"
    by (simp_all add: isp_init_def)
  have low: "\<forall>n < 1003. pin (isp_init serial_pins) (nreads (isp_init serial_pins) + n) = 0"
    by (simp add: s serial_pins_def)
  note a = parallel_exhausted [where entry = enter_full_bus and s = "isp_init serial_pins",
      OF _ entry_facts(2,3) low, simplified entry_facts s, folded A_def]
  have low2: "\<forall>n < 1003. pin A (nreads A + n) = 0"
    by (simp add: a serial_pins_def)
  note b = parallel_exhausted [where entry = enter_short_bus and s = A,
      OF _ entry_facts(6,7) low2, simplified entry_facts a, folded B_def]
  show "fst (probe enter_full_bus (isp_init serial_pins)) \<noteq> 0x1E" using a(1) by simp
  have "fst (probe enter_short_bus A) \<noteq> 0x1E" using b(1) by simp
  then show "fst (probe enter_short_bus (snd (probe enter_full_bus (isp_init serial_pins)))) \<noteq> 0x1E"
    unfolding A_def .
  let ?e = "enter_serial_hv B"
  have e: "dev_type ?e = 0x02" "nreads ?e = 2006" "pin ?e = serial_pins"
    using a b by (simp_all add: entry_facts)
  have ser: "dev_type ?e \<noteq> 0x00" "dev_type ?e \<noteq> 0x01" by (simp_all add: e)
  have m: "fst (avr_getId 0 ?e) = 0x1E"
    using avr_getId_serial [OF ser, of 0] by (simp add: e sampled_serial_pins)
  have p: "id_poll 0 ?e = snd (avr_getId 0 ?e)"
    using m by (rule id_poll_match)
  have ser2: "dev_type (snd (avr_getId 0 ?e)) \<noteq> 0x00" "dev_type (snd (avr_getId 0 ?e)) \<noteq> 0x01"
    by (simp_all add: e)
  have k: "samples_per_read ?e = 44" by (simp add: samples_per_read_def e)
  have "fst (probe enter_serial_hv B) = 0x1E"
    unfolding probe_def p using avr_getId_serial [OF ser2, of 0]
    by (simp add: e k sampled_serial_pins)
  then show "fst (probe enter_serial_hv (snd (probe enter_short_bus
      (snd (probe enter_full_bus (isp_init serial_pins)))))) = 0x1E"
    unfolding B_def A_def .
qed

lemma silent_run:
  "fst (probe enter_full_bus (isp_init silent_pins)) \<noteq> 0x1E"
  "fst (probe enter_short_bus (snd (probe enter_full_bus (isp_init silent_pins)))) \<noteq> 0x1E"
  "fst (probe enter_serial_hv (snd (probe enter_short_bus
      (snd (probe enter_full_bus (isp_init silent_pins)))))) \<noteq> 0x1E"
proof -
  have q: "quiet (isp_init silent_pins)"
    by (simp add: quiet_def isp_init_def silent_pins_def)
  note a = quiet_probe [where entry = enter_full_bus, OF q entry_facts(2,3)]
  note b = quiet_probe [where entry = enter_short_bus, OF a(2) entry_facts(6,7)]
  note c = quiet_probe [where entry = enter_serial_hv, OF b(2) entry_facts(10,11)]
  show "fst (probe enter_full_bus (isp_init silent_pins)) \<noteq> 0x1E"
    "fst (probe enter_short_bus (snd (probe enter_full_bus (isp_init silent_pins)))) \<noteq> 0x1E"
    "fst (probe enter_serial_hv (snd (probe enter_short_bus
      (snd (probe enter_full_bus (isp_init silent_pins)))))) \<noteq> 0x1E"
    using a(1) b(1) c(1) by simp_all
qed

lemma glitch_run:
  "fst (avr_getId 0 (enter_full_bus (isp_init glitch_pins))) = 0x1E"
  "fst (probe enter_full_bus (isp_init glitch_pins)) \<noteq> 0x1E"
  "fst (probe enter_short_bus (snd (probe enter_full_bus (isp_init glitch_pins)))) \<noteq> 0x1E"
  "fst (probe enter_serial_hv (snd (probe enter_short_bus
      (snd (probe enter_full_bus (isp_init glitch_pins)))))) \<noteq> 0x1E"
proof -
  let ?e = "enter_full_bus (isp_init glitch_pins)"
  have e: "dev_type ?e = 0x00 \<or> dev_type ?e = 0x01" "nreads ?e = 0" "pin ?e = glitch_pins"
    by (simp_all add: entry_facts isp_init_def)
  show m: "fst (avr_getId 0 ?e) = 0x1E"
    using avr_getId_parallel [OF e(1), of 0] by (simp add: e glitch_pins_def)
  have p: "id_poll 0 ?e = snd (avr_getId 0 ?e)"
    using m by (rule id_poll_match)
  have s1: "samples_per_read ?e = 1" using e(1) by (auto simp: samples_per_read_def)
  have q: "quiet (snd (avr_getId 0 ?e))"
    by (simp add: quiet_def e s1 glitch_pins_def)
  note g = quiet_getId [OF q, of 0]
  have a: "fst (probe enter_full_bus (isp_init glitch_pins)) = 0"
    "quiet (snd (probe enter_full_bus (isp_init glitch_pins)))"
    unfolding probe_def p using g by simp_all
  note b = quiet_probe [where entry = enter_short_bus, OF a(2) entry_facts(6,7)]
  note c = quiet_probe [where entry = enter_serial_hv, OF b(2) entry_facts(10,11)]
  show "fst (probe enter_full_bus (isp_init glitch_pins)) \<noteq> 0x1E"
    "fst (probe enter_short_bus (snd (probe enter_full_bus (isp_init glitch_pins)))) \<noteq> 0x1E"
    "fst (probe enter_serial_hv (snd (probe enter_short_bus
      (snd (probe enter_full_bus (isp_init glitch_pins)))))) \<noteq> 0x1E"
    using a(1) b(1) c(1) by simp_all
qed

text \<open>
  C1, as the claim states it, fails. The poll of a variant ends when a signature read
  returns 0x1E, but \<open>avr_progMode\<close> does not stop on that read: it reads the signature once
  more and decides on the new value. When the first read of the full-bus variant returns 0x1E
  and every later read returns 0, the function goes on to the short-bus and the serial
  variant (VDD is taken low twice) and returns 1 with \<open>dev_type = 2\<close>.
\<close>

theorem detection_counterexample:
  "fst (avr_getId 0 (enter_full_bus (isp_init glitch_pins))) = 0x1E
   \<and> fst (avr_progMode (isp_init glitch_pins)) = 1
   \<and> dev_type (snd (avr_progMode (isp_init glitch_pins))) = 0x02
   \<and> count_list (new_events (isp_init glitch_pins) (snd (avr_progMode (isp_init glitch_pins))))
        (Low VDD) = 2"
  using detection_cases [of "isp_init glitch_pins"] glitch_run
  by (simp add: Let_def)

text \<open>
  C1, amended. \<open>avr_progMode\<close> tries the full-bus, the short-bus and the serial
  high-voltage entry sequence in this order, each followed by the signature poll and by one
  more signature read that decides. It stops at the first variant whose deciding read
  returns 0x1E: it then returns 0 with \<open>dev_type\<close> set to that variant (0, 1, 2), and the
  entry sequences of the later variants have not run (VDD was taken low 0, 1, 2 times). If no
  deciding read returns 0x1E it returns 1, with \<open>dev_type = 2\<close>. It always returns: a
  variant makes at most 1003 signature reads, a signature read samples the data pins once on
  the parallel variants and 44 times on the serial one, so the whole call samples them at
  most 1003 + 1003 + 44132 = 46138 times.
\<close>

theorem detection_order_and_bound:
  "(let A = snd (probe enter_full_bus s);
        B = snd (probe enter_short_bus A);
        C = snd (probe enter_serial_hv B)
    in (fst (probe enter_full_bus s) = 0x1E \<longrightarrow>
          avr_progMode s = (0, A) \<and> dev_type A = 0x00
          \<and> count_list (new_events s A) (Low VDD) = 0)
     \<and> (fst (probe enter_full_bus s) \<noteq> 0x1E \<and> fst (probe enter_short_bus A) = 0x1E \<longrightarrow>
          avr_progMode s = (0, B) \<and> dev_type B = 0x01
          \<and> count_list (new_events s B) (Low VDD) = 1)
     \<and> (fst (probe enter_full_bus s) \<noteq> 0x1E \<and> fst (probe enter_short_bus A) \<noteq> 0x1E
          \<and> fst (probe enter_serial_hv B) = 0x1E \<longrightarrow>
          avr_progMode s = (0, C) \<and> dev_type C = 0x02
          \<and> count_list (new_events s C) (Low VDD) = 2)
     \<and> (fst (probe enter_full_bus s) \<noteq> 0x1E \<and> fst (probe enter_short_bus A) \<noteq> 0x1E
          \<and> fst (probe enter_serial_hv B) \<noteq> 0x1E \<longrightarrow>
          avr_progMode s = (1, C) \<and> dev_type C = 0x02
          \<and> count_list (new_events s C) (Low VDD) = 2)
     \<and> nreads A \<le> nreads s + 1003
     \<and> nreads B \<le> nreads A + 1003
     \<and> nreads C \<le> nreads B + 44132
     \<and> nreads (snd (avr_progMode s)) \<le> nreads s + 46138)"
  by (rule detection_cases)

theorem detection_order_and_bound_witness:
  "fst (probe enter_full_bus (isp_init steady_pins)) = 0x1E
   \<and> fst (avr_progMode (isp_init steady_pins)) = 0
   \<and> dev_type (snd (avr_progMode (isp_init steady_pins))) = 0x00
   \<and> count_list (new_events (isp_init steady_pins) (snd (avr_progMode (isp_init steady_pins))))
        (Low VDD) = 0
   \<and> nreads (snd (avr_progMode (isp_init steady_pins))) = 2
   \<and> fst (probe enter_full_bus (isp_init short_bus_pins)) \<noteq> 0x1E
   \<and> fst (probe enter_short_bus (snd (probe enter_full_bus (isp_init short_bus_pins)))) = 0x1E
   \<and> fst (avr_progMode (isp_init short_bus_pins)) = 0
   \<and> dev_type (snd (avr_progMode (isp_init short_bus_pins))) = 0x01
   \<and> count_list (new_events (isp_init short_bus_pins) (snd (avr_progMode (isp_init short_bus_pins))))
        (Low VDD) = 1
   \<and> fst (probe enter_serial_hv (snd (probe enter_short_bus
        (snd (probe enter_full_bus (isp_init serial_pins)))))) = 0x1E
   \<and> fst (avr_progMode (isp_init serial_pins)) = 0
   \<and> dev_type (snd (avr_progMode (isp_init serial_pins))) = 0x02
   \<and> count_list (new_events (isp_init serial_pins) (snd (avr_progMode (isp_init serial_pins))))
        (Low VDD) = 2
   \<and> fst (probe enter_serial_hv (snd (probe enter_short_bus
        (snd (probe enter_full_bus (isp_init silent_pins)))))) \<noteq> 0x1E
   \<and> fst (avr_progMode (isp_init silent_pins)) = 1
   \<and> dev_type (snd (avr_progMode (isp_init silent_pins))) = 0x02
   \<and> count_list (new_events (isp_init silent_pins) (snd (avr_progMode (isp_init silent_pins))))
        (Low VDD) = 2
   \<and> nreads (snd (avr_progMode (isp_init silent_pins))) \<le> 46138"
proof -
  have z: "nreads (isp_init silent_pins) = 0" by (simp add: isp_init_def)
  show ?thesis
    using detection_order_and_bound [of "isp_init steady_pins"] steady_run
      detection_order_and_bound [of "isp_init short_bus_pins"] short_bus_run
      detection_order_and_bound [of "isp_init serial_pins"] serial_run
      detection_order_and_bound [of "isp_init silent_pins"] silent_run z
    by (simp add: Let_def)
qed

end
